theory Spec2Isabelle
  imports Main "HOL-Library.Sublist" "HOL-Library.AList"
begin

section \<open>JavaScript values used by the indexing engine\<close>

text \<open>
  Source text and keys are JavaScript strings. They are modelled as \<^typ>\<open>string\<close>, a list of
  8-bit code units; a file identifier (\<open>vscode.Uri\<close>) is modelled by its \<open>toString()\<close> form,
  which is the only thing the engine ever compares. Offsets, lines and columns are natural
  numbers.

  A JavaScript \<open>Map\<close> is an association list in insertion order with distinct keys:
  \<open>get\<close> is \<^const>\<open>map_of\<close>, \<open>set\<close> is \<^const>\<open>AList.update\<close> (an existing key keeps its place,
  a new key goes to the end), \<open>delete\<close> is \<^const>\<open>AList.delete\<close>, and \<open>keys()\<close> is
  \<^term>\<open>map fst\<close>.
\<close>

type_synonym uri = string

type_synonym ('k, 'v) jsmap = "('k \<times> 'v) list"

text \<open>A JavaScript \<open>Set\<close> in insertion order: \<open>add\<close> of a present element changes nothing.\<close>

definition set_add :: "'a list \<Rightarrow> 'a \<Rightarrow> 'a list" where
  "set_add xs x = (if x \<in> set xs then xs else xs @ [x])"

section \<open>Data model (propParser.ts, propIndex.ts)\<close>

datatype prop_source = Styleguide | Default

text \<open>
  \<open>PropDefinition\<close>; the field \<open>end\<close> is called \<open>endOffset\<close> here. \<open>IndexedProp\<close> is the same
  record with the owning file added.
\<close>

record PropDefinition =
  prototypeName :: string
  propPath :: "string list"
  start :: nat
  endOffset :: nat
  source :: prop_source

record IndexedProp = PropDefinition +
  uri :: uri

section \<open>Prop Index (propIndex.ts)\<close>

type_synonym PropIndex = "(string, IndexedProp list) jsmap"

definition indexPrototype :: "PropIndex \<Rightarrow> string \<Rightarrow> PropDefinition list \<Rightarrow> uri \<Rightarrow> PropIndex" where
  "indexPrototype byPrototype name definitions u =
     (let newProps =
            map (\<lambda>d. \<lparr>prototypeName = prototypeName d, propPath = propPath d, start = start d,
                       endOffset = endOffset d, source = source d, uri = u\<rparr>)
              (filter (\<lambda>d. prototypeName d = name) definitions);
          existing = (case map_of byPrototype name of Some ps \<Rightarrow> ps | None \<Rightarrow> [])
      in AList.update name (existing @ newProps) byPrototype)"

text \<open>
  \<open>removeByUri\<close> visits every entry of the map once; a list that becomes empty deletes its
  key, a list that shrank is stored back, an untouched list is left alone.
\<close>

definition removeByUri_step :: "uri \<Rightarrow> PropIndex \<Rightarrow> string \<times> IndexedProp list \<Rightarrow> PropIndex" where
  "removeByUri_step uriKey byPrototype entry =
     (let filtered = filter (\<lambda>p. uri p \<noteq> uriKey) (snd entry)
      in if length filtered = 0 then AList.delete (fst entry) byPrototype
         else if length filtered \<noteq> length (snd entry) then AList.update (fst entry) filtered byPrototype
         else byPrototype)"

definition prop_removeByUri :: "PropIndex \<Rightarrow> uri \<Rightarrow> PropIndex" where
  "prop_removeByUri byPrototype uriKey = foldl (removeByUri_step uriKey) byPrototype byPrototype"

text \<open>\<open>pathsEqual\<close> and \<open>isSuffix\<close>, with their index loops.\<close>

definition pathsEqual :: "string list \<Rightarrow> string list \<Rightarrow> bool" where
  "pathsEqual a b =
     (if length a \<noteq> length b then False
      else list_all (\<lambda>i. a ! i = b ! i) [0..<length a])"

definition isSuffix :: "string list \<Rightarrow> string list \<Rightarrow> bool" where
  "isSuffix full candidate =
     (if length candidate > length full then False
      else list_all (\<lambda>i. full ! (length full - i) = candidate ! (length candidate - i))
             [1..<length candidate + 1])"

text \<open>
  The second loop of \<open>resolve\<close>: the pair is \<open>(bestMatch, bestLength)\<close>, started at
  \<open>(undefined, 0)\<close>; only a strictly longer suffix replaces the best one.
\<close>

definition resolve_step ::
  "string list \<Rightarrow> IndexedProp option \<times> nat \<Rightarrow> IndexedProp \<Rightarrow> IndexedProp option \<times> nat" where
  "resolve_step usagePath best prop =
     (if isSuffix usagePath (propPath prop) \<and> length (propPath prop) > snd best
      then (Some prop, length (propPath prop))
      else best)"

definition resolve :: "PropIndex \<Rightarrow> string \<Rightarrow> string list \<Rightarrow> IndexedProp option" where
  "resolve byPrototype name usagePath =
     (case map_of byPrototype name of
        None \<Rightarrow> None
      | Some props \<Rightarrow>
          if length props = 0 then None
          else (case find (\<lambda>prop. pathsEqual usagePath (propPath prop)) props of
                  Some prop \<Rightarrow> Some prop
                | None \<Rightarrow> fst (foldl (resolve_step usagePath) (None, 0) props)))"

definition getChildren_step :: "string list \<Rightarrow> string list \<Rightarrow> IndexedProp \<Rightarrow> string list" where
  "getChildren_step usagePath result prop =
     (if length (propPath prop) \<le> length usagePath then result
      else if \<not> list_all (\<lambda>i. propPath prop ! i = usagePath ! i) [0..<length usagePath] then result
      else set_add result (propPath prop ! length usagePath))"

definition getChildren :: "PropIndex \<Rightarrow> string \<Rightarrow> string list \<Rightarrow> string list" where
  "getChildren byPrototype name usagePath =
     (case map_of byPrototype name of
        None \<Rightarrow> []
      | Some props \<Rightarrow>
          if length props = 0 then []
          else foldl (getChildren_step usagePath) [] props)"

text \<open>The list stored for a prototype name, empty when the name is not a key.\<close>

definition stored :: "PropIndex \<Rightarrow> string \<Rightarrow> IndexedProp list" where
  "stored byPrototype name = (case map_of byPrototype name of Some ps \<Rightarrow> ps | None \<Rightarrow> [])"

text \<open>
  The resolution rule in the words of the specification: the first exact match; failing that,
  among the entries whose path is a suffix of the usage path, the first one that no other
  such entry exceeds in length.
\<close>

definition resolve_spec :: "IndexedProp list \<Rightarrow> string list \<Rightarrow> IndexedProp option" where
  "resolve_spec entries usagePath =
     (case find (\<lambda>e. propPath e = usagePath) entries of
        Some e \<Rightarrow> Some e
      | None \<Rightarrow>
          (let candidates = filter (\<lambda>e. suffix (propPath e) usagePath) entries
           in find (\<lambda>e. list_all (\<lambda>e'. length (propPath e') \<le> length (propPath e)) candidates)
                candidates))"

text \<open>The data-model invariant: every stored path has at least one segment.\<close>

definition paths_nonempty :: "PropIndex \<Rightarrow> bool" where
  "paths_nonempty byPrototype = list_all (\<lambda>entry. list_all (\<lambda>e. propPath e \<noteq> []) (snd entry)) byPrototype"

text \<open>A small index used to exercise the lookups.\<close>

definition example_index :: PropIndex where
  "example_index =
     [(''X'', [\<lparr>prototypeName = ''X'', propPath = [''baz''], start = 20, endOffset = 23, source = Default, uri = ''file:///a.fusion''\<rparr>,
              \<lparr>prototypeName = ''X'', propPath = [''bar'', ''baz''], start = 40, endOffset = 43, source = Styleguide, uri = ''file:///a.fusion''\<rparr>,
              \<lparr>prototypeName = ''X'', propPath = [''foo'', ''baz''], start = 60, endOffset = 63, source = Styleguide, uri = ''file:///a.fusion''\<rparr>,
              \<lparr>prototypeName = ''X'', propPath = [''bar'', ''baz''], start = 80, endOffset = 83, source = Styleguide, uri = ''file:///b.fusion''\<rparr>])]"


section \<open>Regular-expression character classes\<close>

text \<open>
  The character classes of the scanners' regular expressions. \<open>\s\<close> is JavaScript's
  white space (tab, line feed, vertical tab, form feed, carriage return, space and the
  no-break space, among the code units modelled); \<open>.\<close> matches everything except the line
  terminators.
\<close>

definition is_space :: "char \<Rightarrow> bool" where
  "is_space c = (c \<in> set [CHR 0x09, CHR 0x0A, CHR 0x0B, CHR 0x0C, CHR 0x0D, CHR 0x20, CHR 0xA0])"

definition is_line_terminator :: "char \<Rightarrow> bool" where
  "is_line_terminator c = (c = CHR 0x0A \<or> c = CHR 0x0D)"

definition is_upper :: "char \<Rightarrow> bool" where
  "is_upper c = (65 \<le> (of_char c :: nat) \<and> (of_char c :: nat) \<le> 90)"

definition is_lower :: "char \<Rightarrow> bool" where
  "is_lower c = (97 \<le> (of_char c :: nat) \<and> (of_char c :: nat) \<le> 122)"

definition is_digit :: "char \<Rightarrow> bool" where
  "is_digit c = (48 \<le> (of_char c :: nat) \<and> (of_char c :: nat) \<le> 57)"

text \<open>\<open>[A-Za-z0-9_.:-]\<close>, the characters of a prototype name.\<close>

definition is_name_char :: "char \<Rightarrow> bool" where
  "is_name_char c = (is_upper c \<or> is_lower c \<or> is_digit c \<or> c \<in> set ''_.:-'')"

text \<open>
  \<open>String.prototype.split\<close> on the string \<open>'\n'\<close> and on the expression \<open>/\r?\n/\<close>: a
  carriage return is part of the separator only directly before a line feed. Both give one
  piece more than there are line feeds.
\<close>

fun split_lf :: "string \<Rightarrow> string list" where
  "split_lf [] = [[]]"
| "split_lf (c # cs) =
     (if c = CHR 0x0A then [] # split_lf cs
      else (let r = split_lf cs in (c # hd r) # tl r))"

fun split_crlf :: "string \<Rightarrow> string list" where
  "split_crlf [] = [[]]"
| "split_crlf [c] = (if c = CHR 0x0A then [[], []] else [[c]])"
| "split_crlf (c # d # cs) =
     (if c = CHR 0x0D \<and> d = CHR 0x0A then [] # split_crlf cs
      else if c = CHR 0x0A then [] # split_crlf (d # cs)
      else (let r = split_crlf (d # cs) in (c # hd r) # tl r))"

text \<open>\<open>source.slice(start, end)\<close> for offsets that are not negative.\<close>

definition slice :: "string \<Rightarrow> nat \<Rightarrow> nat \<Rightarrow> string" where
  "slice s from to = drop from (take to s)"

section \<open>Prototype declaration scan (prototypeParser.ts)\<close>

text \<open>\<open>PrototypeDeclaration\<close>, with fields \<open>name\<close>, \<open>start\<close> and \<open>end\<close>.\<close>

record PrototypeDeclaration =
  declName :: string
  declStart :: nat
  declEnd :: nat

text \<open>
  One attempt of \<open>/prototype\s*\(\s*([A-Za-z0-9_.:-]+)\s*\)/\<close> at the head of a string: the
  captured name and the length of the match. Every quantifier is followed by a character
  outside its own class, so the longest run is the only one that can lead to a match and the
  attempt is deterministic.
\<close>

definition match_prototype :: "string \<Rightarrow> (string \<times> nat) option" where
  "match_prototype s =
     (if \<not> prefix ''prototype'' s then None
      else let s1 = drop 9 s; w1 = takeWhile is_space s1; s2 = dropWhile is_space s1 in
        if \<not> prefix ''('' s2 then None
        else let s3 = drop 1 s2; w2 = takeWhile is_space s3; s4 = dropWhile is_space s3;
                 nm = takeWhile is_name_char s4; s5 = dropWhile is_name_char s4 in
          if nm = [] then None
          else let w3 = takeWhile is_space s5; s6 = dropWhile is_space s5 in
            if \<not> prefix '')'' s6 then None
            else Some (nm, 9 + length w1 + 1 + length w2 + length nm + length w3 + 1))"

lemma match_prototype_positive: "match_prototype s = Some (nm, n) \<Longrightarrow> 0 < n"
  by (auto simp: match_prototype_def Let_def split: if_splits)

text \<open>
  The loop \<open>while ((match = prototypeRegex.exec(source)) !== null)\<close> with the global flag:
  the search resumes where the last match ended, and a failed attempt moves one character on.
  The first argument is the offset of the second in the source.
\<close>

function parsePrototypes_from :: "nat \<Rightarrow> string \<Rightarrow> PrototypeDeclaration list" where
  "parsePrototypes_from pos [] = []"
| "parsePrototypes_from pos (c # cs) =
     (case match_prototype (c # cs) of
        Some (nm, n) \<Rightarrow>
          \<lparr>declName = nm, declStart = pos, declEnd = pos + n\<rparr>
            # parsePrototypes_from (pos + n) (drop n (c # cs))
      | None \<Rightarrow> parsePrototypes_from (Suc pos) cs)"
  by pat_completeness auto
termination
  by (relation "measure (\<lambda>(pos, s). length s)") (auto dest: match_prototype_positive)

definition parsePrototypes :: "string \<Rightarrow> PrototypeDeclaration list" where
  "parsePrototypes src = parsePrototypes_from 0 src"

section \<open>Prototype Index (prototypeIndex.ts)\<close>

text \<open>
  \<open>IndexedPrototype\<close>, with fields \<open>name\<close>, \<open>uri\<close> and \<open>range\<close>; a \<open>vscode.Position\<close> is a
  pair of line and character, a \<open>vscode.Range\<close> a pair of positions.
\<close>

type_synonym position = "nat \<times> nat"

record IndexedPrototype =
  protoName :: string
  protoUri :: uri
  protoRange :: "position \<times> position"

record PrototypeIndex =
  prototypes :: "(string, IndexedPrototype) jsmap"
  filePrototypes :: "(string, string list) jsmap"

definition offsetToPosition :: "string \<Rightarrow> nat \<Rightarrow> position" where
  "offsetToPosition src offset =
     (let textBefore = slice src 0 offset; lines = split_crlf textBefore
      in (length lines - 1, length (last lines)))"

definition proto_clear :: "PrototypeIndex \<Rightarrow> PrototypeIndex" where
  "proto_clear idx = idx\<lparr>prototypes := []\<rparr>"

definition indexDocument_step ::
  "uri \<Rightarrow> string \<Rightarrow> (string, IndexedPrototype) jsmap \<times> string list \<Rightarrow> PrototypeDeclaration
     \<Rightarrow> (string, IndexedPrototype) jsmap \<times> string list" where
  "indexDocument_step u src acc decl =
     (let startPos = offsetToPosition src (declStart decl);
          endPos = offsetToPosition src (declEnd decl)
      in (AList.update (declName decl)
            \<lparr>protoName = declName decl, protoUri = u, protoRange = (startPos, endPos)\<rparr> (fst acc),
          snd acc @ [declName decl]))"

definition indexDocument :: "PrototypeIndex \<Rightarrow> uri \<Rightarrow> string \<Rightarrow> PrototypeIndex" where
  "indexDocument idx u src =
     (let declarations = parsePrototypes src;
          acc = foldl (indexDocument_step u src) (prototypes idx, []) declarations
      in \<lparr>prototypes = fst acc, filePrototypes = AList.update u (snd acc) (filePrototypes idx)\<rparr>)"

definition proto_removeByUri :: "PrototypeIndex \<Rightarrow> uri \<Rightarrow> PrototypeIndex" where
  "proto_removeByUri idx u =
     (case map_of (filePrototypes idx) u of
        None \<Rightarrow> idx
      | Some names \<Rightarrow>
          \<lparr>prototypes = foldl (\<lambda>ps name. AList.delete name ps) (prototypes idx) names,
           filePrototypes = AList.delete u (filePrototypes idx)\<rparr>)"

definition getPrototypesFromDocument :: "PrototypeIndex \<Rightarrow> uri \<Rightarrow> string list" where
  "getPrototypesFromDocument idx u = (case map_of (filePrototypes idx) u of Some names \<Rightarrow> names | None \<Rightarrow> [])"

definition proto_get :: "PrototypeIndex \<Rightarrow> string \<Rightarrow> IndexedPrototype option" where
  "proto_get idx name = map_of (prototypes idx) name"

definition getAllNames :: "PrototypeIndex \<Rightarrow> string list" where
  "getAllNames idx = map fst (prototypes idx)"

definition empty_PrototypeIndex :: PrototypeIndex where
  "empty_PrototypeIndex = \<lparr>prototypes = [], filePrototypes = []\<rparr>"

section \<open>String helpers of the prop parser\<close>

text \<open>
  \<open>String.prototype.split\<close> on one character, \<open>includes\<close>, \<open>indexOf\<close> (\<open>None\<close> for \<open>-1\<close>) and
  \<open>Array.prototype.join('.')\<close>.
\<close>

fun split_on :: "char \<Rightarrow> string \<Rightarrow> string list" where
  "split_on sep [] = [[]]"
| "split_on sep (c # cs) =
     (if c = sep then [] # split_on sep cs
      else (let r = split_on sep cs in (c # hd r) # tl r))"

fun str_includes :: "string \<Rightarrow> string \<Rightarrow> bool" where
  "str_includes [] pat = (pat = [])"
| "str_includes (c # cs) pat = (prefix pat (c # cs) \<or> str_includes cs pat)"

fun indexOf :: "string \<Rightarrow> string \<Rightarrow> nat option" where
  "indexOf [] pat = (if pat = [] then Some 0 else None)"
| "indexOf (c # cs) pat = (if prefix pat (c # cs) then Some 0 else map_option Suc (indexOf cs pat))"

fun join_dot :: "string list \<Rightarrow> string" where
  "join_dot [] = []"
| "join_dot [x] = x"
| "join_dot (x # y # ys) = x @ ''.'' @ join_dot (y # ys)"

section \<open>Styleguide Tree Parser (propParser.ts, parseStyleguidePropsTree)\<close>

text \<open>
  \<open>StyleguideNode\<close>: a position and the children, a JavaScript object used as a dictionary.
  The children are kept as an association list in insertion order. A node without the
  optional \<open>children\<close> property and a node with an empty one are not told apart: no function
  of the parser distinguishes them.

  \<open>StyleguideWarning\<close> has the fields \<open>message\<close>, \<open>line\<close> and \<open>column\<close>.
\<close>

datatype StyleguideNode =
  StyleguideNode (nodeLine: nat) (nodeColumn: nat) (children: "(string \<times> StyleguideNode) list")

record StyleguideWarning =
  warnMessage :: string
  warnLine :: nat
  warnColumn :: nat

text \<open>
  The test \<open>if (current.children[key])\<close> reads a property of an object created by the
  literal \<open>{}\<close>: it finds the node stored under the key, and otherwise whatever the key names
  on \<open>Object.prototype\<close>, all of which are functions or objects and so count as true.
\<close>

definition object_prototype_keys :: "string list" where
  "object_prototype_keys =
     [''constructor'', ''__defineGetter__'', ''__defineSetter__'', ''hasOwnProperty'',
      ''__lookupGetter__'', ''__lookupSetter__'', ''isPrototypeOf'', ''propertyIsEnumerable'',
      ''toString'', ''valueOf'', ''__proto__'', ''toLocaleString'']"

definition has_property :: "(string \<times> StyleguideNode) list \<Rightarrow> string \<Rightarrow> bool" where
  "has_property ch key = (key \<in> set (map fst ch) \<or> key \<in> set object_prototype_keys)"

text \<open>
  The parser holds references to nodes of the tree it is building (\<open>current\<close> and the
  \<open>stack\<close>) and mutates the tree through them. Every node pushed on the stack is the child
  just stored under the node on top of it, so a reference is modelled by the path of keys
  that leads from the root to the node: \<open>node_at\<close> follows a reference, \<open>add_child\<close> is the
  assignment \<open>current.children[key] = node\<close>.
\<close>

fun node_at :: "StyleguideNode \<Rightarrow> string list \<Rightarrow> StyleguideNode option" where
  "node_at n [] = Some n"
| "node_at n (k # ks) = (case map_of (children n) k of None \<Rightarrow> None | Some m \<Rightarrow> node_at m ks)"

fun add_child :: "string list \<Rightarrow> string \<Rightarrow> StyleguideNode \<Rightarrow> StyleguideNode \<Rightarrow> StyleguideNode" where
  "add_child [] key node (StyleguideNode l c ch) = StyleguideNode l c (AList.update key node ch)"
| "add_child (k # ks) key node (StyleguideNode l c ch) =
     StyleguideNode l c (map (\<lambda>entry. if fst entry = k then (fst entry, add_child ks key node (snd entry)) else entry) ch)"

definition children_at :: "StyleguideNode \<Rightarrow> string list \<Rightarrow> (string \<times> StyleguideNode) list" where
  "children_at root path = (case node_at root path of Some n \<Rightarrow> children n | None \<Rightarrow> [])"

definition set_position :: "StyleguideNode \<Rightarrow> nat \<Rightarrow> nat \<Rightarrow> StyleguideNode" where
  "set_position n l c = StyleguideNode l c (children n)"

text \<open>
  The loop that tracks the depth of \<open>${...}\<close> expressions over one line. The counter is
  declared outside the loop over the lines, so it is carried from one line to the next.
\<close>

fun eel_scan :: "nat \<Rightarrow> string \<Rightarrow> nat" where
  "eel_scan d [] = d"
| "eel_scan d [c] = (if c = CHR ''}'' \<and> d > 0 then d - 1 else d)"
| "eel_scan d (c # e # cs) =
     (if c = CHR ''$'' \<and> e = CHR ''{'' then eel_scan (d + 1) cs
      else if c = CHR ''}'' \<and> d > 0 then eel_scan (d - 1) (e # cs)
      else eel_scan d (e # cs))"

text \<open>
  The regular expressions of the line classifier, each tried at the head of a line.

  \<^item> \<open>/^(\s*)props\s*\{/\<close> gives the indentation.
  \<^item> \<open>/^\s*\}/\<close> and \<open>/^\s*@/\<close> are tests.
  \<^item> \<open>/^(\s*)([^\s={]+)\s*(?:=\s*[^{]+)?\s*\{/\<close> gives indentation and key. The indentation is
    all leading white space and the key the longest run of key characters, because the
    character after either must lie outside its class. What follows the key must be white
    space and then either \<open>{\<close>, or \<open>=\<close> and a non-empty text without \<open>{\<close> and then \<open>{\<close> (white space
    is itself text without \<open>{\<close>).
  \<^item> \<open>/^(\s*)([^\s={]+)\s*=\s*(?!.*\{)/\<close> gives the key in the same way. After \<open>=\<close> the
    white space may be given back one character at a time until the look-ahead holds: no
    \<open>{\<close> before the next line terminator.
\<close>

definition is_key_char :: "char \<Rightarrow> bool" where
  "is_key_char c = (\<not> is_space c \<and> c \<noteq> CHR ''='' \<and> c \<noteq> CHR ''{'')"

definition match_props :: "string \<Rightarrow> string option" where
  "match_props line =
     (let indent = takeWhile is_space line; r = dropWhile is_space line in
      if prefix ''props'' r \<and> prefix ''{'' (dropWhile is_space (drop 5 r)) then Some indent else None)"

definition closeBlockRegex_test :: "string \<Rightarrow> bool" where
  "closeBlockRegex_test line = prefix ''}'' (dropWhile is_space line)"

definition isDirectiveLine :: "string \<Rightarrow> bool" where
  "isDirectiveLine line = prefix ''@'' (dropWhile is_space line)"

definition openBlockRegex_match :: "string \<Rightarrow> (string \<times> string) option" where
  "openBlockRegex_match line =
     (let indent = takeWhile is_space line; r = dropWhile is_space line;
          key = takeWhile is_key_char r; r1 = dropWhile is_key_char r;
          r2 = dropWhile is_space r1
      in if key = [] then None
         else if prefix ''{'' r2 then Some (indent, key)
         else if prefix ''='' r2 then
           (let r3 = drop 1 r2
            in if r3 \<noteq> [] \<and> hd r3 \<noteq> CHR ''{'' \<and> CHR ''{'' \<in> set r3 then Some (indent, key) else None)
         else None)"

definition lookahead_no_brace :: "string \<Rightarrow> bool" where
  "lookahead_no_brace r = (CHR ''{'' \<notin> set (takeWhile (\<lambda>c. \<not> is_line_terminator c) r))"

definition leafRegex_match :: "string \<Rightarrow> string option" where
  "leafRegex_match line =
     (let r = dropWhile is_space line;
          key = takeWhile is_key_char r; r1 = dropWhile is_key_char r;
          r2 = dropWhile is_space r1
      in if key = [] then None
         else if prefix ''='' r2 then
           (let r3 = drop 1 r2; n = length (takeWhile is_space r3)
            in if list_ex (\<lambda>t. lookahead_no_brace (drop t r3)) (rev [0..<Suc n]) then Some key else None)
         else None)"

record parser_state =
  inStyleguide :: bool
  inProps :: bool
  root_props :: StyleguideNode
  root_warnings :: "StyleguideWarning list"
  stack :: "string list list"
  current :: "string list option"
  eelDepth :: nat

definition initial_parser_state :: parser_state where
  "initial_parser_state =
     \<lparr>inStyleguide = False, inProps = False, root_props = StyleguideNode 0 0 [],
      root_warnings = [], stack = [], current = None, eelDepth = 0\<rparr>"

definition duplicate_message :: "string \<Rightarrow> string" where
  "duplicate_message key = ''Duplicate prop '' @ [CHR 0x22] @ key @ [CHR 0x22] @ '' defined at the same level''"

text \<open>
  The three ways a line inside the \<open>props\<close> block is handled, written for a \<open>current\<close> node
  that is not null: a closing brace pops the stack, a block opener stores a child and
  descends into it, a leaf stores a child. A key that \<open>current.children\<close> already answers
  for pushes a warning and changes nothing else.
\<close>

definition close_block :: "parser_state \<Rightarrow> parser_state" where
  "close_block st =
     (let stack' = butlast (stack st)
      in st\<lparr>stack := stack', current := (if stack' = [] then None else Some (last stack'))\<rparr>)"

definition open_block :: "parser_state \<Rightarrow> string list \<Rightarrow> string \<Rightarrow> nat \<Rightarrow> string \<Rightarrow> string \<Rightarrow> parser_state" where
  "open_block st cur line lineNumber indent key =
     (let col = (case indexOf line key of Some keyStart \<Rightarrow> keyStart + 1 | None \<Rightarrow> length indent + 1);
          node = StyleguideNode lineNumber col []
      in if has_property (children_at (root_props st) cur) key
         then st\<lparr>root_warnings := root_warnings st @
                  [\<lparr>warnMessage = duplicate_message key, warnLine = lineNumber, warnColumn = col\<rparr>]\<rparr>
         else st\<lparr>root_props := add_child cur key node (root_props st),
                 stack := stack st @ [cur @ [key]],
                 current := Some (cur @ [key])\<rparr>)"

definition add_leaf :: "parser_state \<Rightarrow> string list \<Rightarrow> string \<Rightarrow> nat \<Rightarrow> string \<Rightarrow> parser_state" where
  "add_leaf st cur line lineNumber key =
     (let col = (case indexOf line key of Some keyStart \<Rightarrow> keyStart + 1 | None \<Rightarrow> 1);
          node = StyleguideNode lineNumber col []
      in if has_property (children_at (root_props st) cur) key
         then st\<lparr>root_warnings := root_warnings st @
                  [\<lparr>warnMessage = duplicate_message key, warnLine = lineNumber, warnColumn = col\<rparr>]\<rparr>
         else st\<lparr>root_props := add_child cur key node (root_props st)\<rparr>)"

text \<open>The body of \<open>lines.forEach((line, index) => ...)\<close>, with \<open>lineNumber = index + 1\<close>.\<close>

definition parse_line :: "parser_state \<Rightarrow> string \<times> nat \<Rightarrow> parser_state" where
  "parse_line st0 entry =
     (let line = fst entry; lineNumber = snd entry + 1;
          st = st0\<lparr>eelDepth := eel_scan (eelDepth st0) line\<rparr>
      in if \<not> inStyleguide st \<and> str_includes line ''@styleguide'' then st\<lparr>inStyleguide := True\<rparr>
         else if inStyleguide st \<and> \<not> inProps st then
           (case match_props line of
              Some indent \<Rightarrow>
                st\<lparr>inProps := True,
                   root_props := set_position (root_props st) lineNumber (length indent + 1),
                   current := Some [],
                   stack := stack st @ [[]]\<rparr>
            | None \<Rightarrow> st)
         else if \<not> inProps st then st
         else (case current st of
                 None \<Rightarrow> st
               | Some cur \<Rightarrow>
                   if eelDepth st = 0 \<and> closeBlockRegex_test line then close_block st
                   else (case (if \<not> isDirectiveLine line then openBlockRegex_match line else None) of
                           Some (indent, key) \<Rightarrow> open_block st cur line lineNumber indent key
                         | None \<Rightarrow>
                             (case (if \<not> isDirectiveLine line then leafRegex_match line else None) of
                                Some key \<Rightarrow> add_leaf st cur line lineNumber key
                              | None \<Rightarrow> st))))"

definition parseStyleguidePropsTree :: "string \<Rightarrow> StyleguideNode \<times> StyleguideWarning list" where
  "parseStyleguidePropsTree src =
     (let lines = split_on CHR 0x0A src;
          st = foldl parse_line initial_parser_state (zip lines [0..<length lines])
      in (root_props st, root_warnings st))"

section \<open>Tree Flattener (propParser.ts, flattenStyleguideTree)\<close>

text \<open>
  \<open>Object.entries\<close> lists the keys that are array indices (canonical decimal numerals up to
  \<open>2^32 - 2\<close>) first, in ascending numeric order, and then the other keys in insertion order.
\<close>

definition digits_value :: "string \<Rightarrow> nat" where
  "digits_value k = foldl (\<lambda>n c. 10 * n + (of_char c - 48)) 0 k"

definition is_array_index :: "string \<Rightarrow> bool" where
  "is_array_index k =
     (k \<noteq> [] \<and> list_all is_digit k \<and> (k = ''0'' \<or> hd k \<noteq> CHR ''0'') \<and> digits_value k \<le> 4294967294)"

definition object_entries :: "(string \<times> 'a) list \<Rightarrow> (string \<times> 'a) list" where
  "object_entries ch =
     sort_key (\<lambda>entry. digits_value (fst entry)) (filter (\<lambda>entry. is_array_index (fst entry)) ch)
     @ filter (\<lambda>entry. \<not> is_array_index (fst entry)) ch"

lemma set_object_entries: "set (object_entries ch) = set ch"
  by (auto simp: object_entries_def)

fun lineOffsets_from :: "nat \<Rightarrow> string list \<Rightarrow> nat list" where
  "lineOffsets_from acc [] = []"
| "lineOffsets_from acc (l # ls) = acc # lineOffsets_from (acc + length l + 1) ls"

text \<open>
  \<open>walk\<close> pushes a definition for every node below the root and then visits the children.
  The line of such a node is a line number of the body, so the offset table has an entry for
  it (\<open>parseStyleguidePropsTree_lines_within\<close> below); were it missing, JavaScript would
  compute \<open>NaN\<close>, for which the model writes \<open>0\<close>.
\<close>

function walk :: "string \<Rightarrow> nat \<Rightarrow> nat list \<Rightarrow> StyleguideNode \<Rightarrow> string list \<Rightarrow> PropDefinition list" where
  "walk name bodyOffset lineOffsets (StyleguideNode l c ch) path =
     (if length path > 0 then
        (let offset = (if l - 1 < length lineOffsets \<and> 0 < l
                       then bodyOffset + lineOffsets ! (l - 1) + c - 1 else 0)
         in [\<lparr>prototypeName = name, propPath = path, start = offset,
               endOffset = offset + length (last path), source = Styleguide\<rparr>])
      else [])
     @ concat (map (\<lambda>entry. walk name bodyOffset lineOffsets (snd entry) (path @ [fst entry]))
                (object_entries ch))"
  by pat_completeness auto
termination
proof (relation "measure (\<lambda>(name, bodyOffset, lineOffsets, node, path). size node)")
  show "wf (measure (\<lambda>(name, bodyOffset, lineOffsets, node, path). size node))" by simp
next
  fix name :: string and bodyOffset :: nat and lineOffsets :: "nat list" and l c :: nat
    and ch :: "(string \<times> StyleguideNode) list" and path :: "string list"
    and entry :: "string \<times> StyleguideNode"
  assume "entry \<in> set (object_entries ch)"
  then have "entry \<in> set ch" by (simp add: set_object_entries)
  then have "size (snd entry) < Suc (size_list (size_prod (\<lambda>_. 0) size) ch)"
    by (induction ch) (auto simp: less_Suc_eq_le)
  then show "((name, bodyOffset, lineOffsets, snd entry, path @ [fst entry]),
              (name, bodyOffset, lineOffsets, StyleguideNode l c ch, path))
             \<in> measure (\<lambda>(name, bodyOffset, lineOffsets, node, path). size node)"
    by simp
qed

definition flattenStyleguideTree :: "StyleguideNode \<Rightarrow> string \<Rightarrow> string \<Rightarrow> nat \<Rightarrow> PropDefinition list" where
  "flattenStyleguideTree tree_props name document bodyOffset =
     (let lines = split_crlf document; lineOffsets = lineOffsets_from 0 lines
      in walk name bodyOffset lineOffsets tree_props [])"

section \<open>Default Prop Scanner (propParser.ts, parseDefaultProps)\<close>

text \<open>
  \<open>/^[ \t]*([A-Za-z_][A-Za-z0-9_.]*|[0-9]+)\s*=/\<close> at the head of a line: the key and the
  length of the whole match. The two alternatives start with different characters, and each
  run must be the longest one, since the character after it has to be white space or \<open>=\<close>.
\<close>

definition is_blank :: "char \<Rightarrow> bool" where
  "is_blank c = (c = CHR 0x20 \<or> c = CHR 0x09)"

definition is_ident_start :: "char \<Rightarrow> bool" where
  "is_ident_start c = (is_upper c \<or> is_lower c \<or> c = CHR ''_'')"

definition is_ident_char :: "char \<Rightarrow> bool" where
  "is_ident_char c = (is_upper c \<or> is_lower c \<or> is_digit c \<or> c = CHR ''_'' \<or> c = CHR ''.'')"

definition defaultRegex_match :: "string \<Rightarrow> (string \<times> nat) option" where
  "defaultRegex_match line =
     (let lead = takeWhile is_blank line; r = dropWhile is_blank line;
          key = (if r \<noteq> [] \<and> is_ident_start (hd r) then takeWhile is_ident_char r
                 else takeWhile is_digit r);
          r1 = drop (length key) r;
          ws = takeWhile is_space r1; r2 = dropWhile is_space r1
      in if key \<noteq> [] \<and> prefix ''='' r2
         then Some (key, length lead + length key + length ws + 1)
         else None)"

definition brace_depth :: "int \<Rightarrow> string \<Rightarrow> int" where
  "brace_depth depth line =
     foldl (\<lambda>d ch. if ch = CHR ''{'' then d + 1 else if ch = CHR ''}'' then d - 1 else d) depth line"

text \<open>
  The state of the loop over the lines is \<open>(results, depth, currentOffset)\<close>. \<open>indexOf\<close> always
  finds the key it is given here; its \<open>-1\<close> is written out all the same.
\<close>

definition default_step ::
  "string \<Rightarrow> nat \<Rightarrow> PropDefinition list \<times> int \<times> nat \<Rightarrow> string \<Rightarrow> PropDefinition list \<times> int \<times> nat" where
  "default_step name bodyOffset acc line =
     (let results = fst acc; depth = fst (snd acc); currentOffset = snd (snd acc);
          lineLength = length line + 1;
          results' =
            (case defaultRegex_match line of
               Some (key, matchLength) \<Rightarrow>
                 if depth = 0 then
                   (let path = split_on CHR ''.'' key;
                        startOffset = (case indexOf line key of
                                         Some i \<Rightarrow> bodyOffset + currentOffset + i
                                       | None \<Rightarrow> bodyOffset + currentOffset - 1);
                        endOff = startOffset + matchLength
                    in results @ [\<lparr>prototypeName = name, propPath = path, start = startOffset,
                                    endOffset = endOff, source = Default\<rparr>])
                 else results
             | None \<Rightarrow> results)
      in (results', brace_depth depth line, currentOffset + lineLength))"

definition parseDefaultProps :: "string \<Rightarrow> string \<Rightarrow> nat \<Rightarrow> PropDefinition list" where
  "parseDefaultProps body name bodyOffset =
     fst (foldl (default_step name bodyOffset) ([], 0, 0) (split_crlf body))"

section \<open>Block Extractor (propParser.ts, parsePrototypeBlocks and findMatchingBrace)\<close>

record PrototypeBlock =
  blockName :: string
  bodyStart :: nat
  bodyEnd :: nat

text \<open>The loop of \<open>findMatchingBrace\<close> from index \<open>i\<close>; \<open>None\<close> is the result \<open>-1\<close>.\<close>

fun findMatchingBrace_loop :: "int \<Rightarrow> nat \<Rightarrow> string \<Rightarrow> nat option" where
  "findMatchingBrace_loop depth i [] = None"
| "findMatchingBrace_loop depth i (ch # rest) =
     (if ch = CHR ''{'' then findMatchingBrace_loop (depth + 1) (i + 1) rest
      else if ch = CHR ''}'' then
        (if depth - 1 = 0 then Some i else findMatchingBrace_loop (depth - 1) (i + 1) rest)
      else findMatchingBrace_loop depth (i + 1) rest)"

definition findMatchingBrace :: "string \<Rightarrow> nat \<Rightarrow> nat option" where
  "findMatchingBrace src openBraceIndex = findMatchingBrace_loop 0 openBraceIndex (drop openBraceIndex src)"

text \<open>
  \<open>/prototype\s*\(\s*([A-Za-z0-9_.:-]+)\s*\)(?:\s*<[^{]*?)?\s*\{/\<close> at the head of a string.
  After the closing parenthesis and white space, a \<open><\<close> starts the inheritance clause, whose
  lazy \<open>[^{]*?\<close> stops at the first \<open>{\<close> that follows; otherwise the next character must be
  the \<open>{\<close> itself. When a \<open><\<close> is there but no \<open>{\<close> follows it, nothing matches.
\<close>

definition match_prototype_block :: "string \<Rightarrow> (string \<times> nat) option" where
  "match_prototype_block s =
     (case match_prototype s of
        None \<Rightarrow> None
      | Some (nm, n) \<Rightarrow>
          (let r = drop n s; ws = takeWhile is_space r; r1 = dropWhile is_space r in
           if prefix ''<'' r1 then
             (let r2 = drop 1 r1; inh = takeWhile (\<lambda>c. c \<noteq> CHR ''{'') r2;
                  r3 = dropWhile (\<lambda>c. c \<noteq> CHR ''{'') r2
              in if prefix ''{'' r3 then Some (nm, n + length ws + 1 + length inh + 1) else None)
           else if prefix ''{'' r1 then Some (nm, n + length ws + 1)
           else None))"

lemma match_prototype_block_positive: "match_prototype_block s = Some (nm, n) \<Longrightarrow> 0 < n"
  by (auto simp: match_prototype_block_def Let_def split: option.splits if_splits)

text \<open>
  The loop over the matches; \<open>whole\<close> is the complete source, needed to find the closing
  brace. A block without a closing brace is skipped.
\<close>

function parsePrototypeBlocks_from :: "string \<Rightarrow> nat \<Rightarrow> string \<Rightarrow> PrototypeBlock list" where
  "parsePrototypeBlocks_from whole pos [] = []"
| "parsePrototypeBlocks_from whole pos (c # cs) =
     (case match_prototype_block (c # cs) of
        Some (nm, n) \<Rightarrow>
          (case findMatchingBrace whole (pos + n - 1) of
             None \<Rightarrow> parsePrototypeBlocks_from whole (pos + n) (drop n (c # cs))
           | Some closing \<Rightarrow>
               \<lparr>blockName = nm, bodyStart = pos + n, bodyEnd = closing\<rparr>
                 # parsePrototypeBlocks_from whole (pos + n) (drop n (c # cs)))
      | None \<Rightarrow> parsePrototypeBlocks_from whole (Suc pos) cs)"
  by pat_completeness auto
termination
  by (relation "measure (\<lambda>(whole, pos, s). length s)") (auto dest: match_prototype_block_positive)

definition parsePrototypeBlocks :: "string \<Rightarrow> PrototypeBlock list" where
  "parsePrototypeBlocks src = parsePrototypeBlocks_from src 0 src"

section \<open>Prop Merge Policy (propParser.ts, parsePropDefinitions)\<close>

text \<open>
  The body of the loop over the prototype blocks: the styleguide definitions are pushed
  first, then the defaults whose joined path is not in the set \<open>seen\<close>.
\<close>

definition parsePropDefinitions_step ::
  "string \<Rightarrow> PropDefinition list \<times> StyleguideWarning list \<Rightarrow> PrototypeBlock
     \<Rightarrow> PropDefinition list \<times> StyleguideWarning list" where
  "parsePropDefinitions_step src acc proto =
     (let body = slice src (bodyStart proto) (bodyEnd proto);
          styleguideTree = parseStyleguidePropsTree body;
          warnings = snd acc @ snd styleguideTree;
          styleguideProps = flattenStyleguideTree (fst styleguideTree) (blockName proto) body (bodyStart proto);
          seen = foldl set_add [] (map (\<lambda>p. join_dot (propPath p)) styleguideProps);
          results = fst acc @ styleguideProps;
          defaults = filter (\<lambda>p. join_dot (propPath p) \<notin> set seen)
                       (parseDefaultProps body (blockName proto) (bodyStart proto))
      in (results @ defaults, warnings))"

definition parsePropDefinitions :: "string \<Rightarrow> PropDefinition list \<times> StyleguideWarning list" where
  "parsePropDefinitions src = foldl (parsePropDefinitions_step src) ([], []) (parsePrototypeBlocks src)"

section \<open>Workspace Index (workspaceIndex.ts, indexFusionFile)\<close>

text \<open>
  The editor is a parameter of the model. \<open>openTextDocument\<close> gives the text of the document
  of a file, or \<open>None\<close> when the promise is rejected; \<open>positionAt\<close> is the document's
  conversion of an offset to a position, applied to the document's text.
\<close>

record host =
  openTextDocument :: "uri \<Rightarrow> string option"
  positionAt :: "string \<Rightarrow> nat \<Rightarrow> position"

datatype DiagnosticSeverity = Warning

text \<open>\<open>vscode.Diagnostic\<close>, with fields \<open>range\<close>, \<open>message\<close> and \<open>severity\<close>.\<close>

record Diagnostic =
  diagRange :: "position \<times> position"
  diagMessage :: string
  diagSeverity :: DiagnosticSeverity

record WorkspaceIndex =
  fusionFiles :: "uri list"
  prototypeIndex :: PrototypeIndex
  propIndex :: PropIndex
  filePrototypeMap :: "(string, string list) jsmap"
  filePropMap :: "(string, PropDefinition list) jsmap"
  diagnostics :: "(string, Diagnostic list) jsmap"

definition empty_WorkspaceIndex :: WorkspaceIndex where
  "empty_WorkspaceIndex =
     \<lparr>fusionFiles = [], prototypeIndex = empty_PrototypeIndex, propIndex = [],
      filePrototypeMap = [], filePropMap = [], diagnostics = []\<rparr>"

definition map_has :: "('k, 'v) jsmap \<Rightarrow> 'k \<Rightarrow> bool" where
  "map_has m k = (k \<in> set (map fst m))"

text \<open>
  \<open>w.message.match(/"([^"]+)"/)\<close>: the first quotation mark that is followed by a non-empty
  run of other characters and a closing quotation mark; the run is the warned key.
\<close>

fun quoted_key :: "string \<Rightarrow> string option" where
  "quoted_key [] = None"
| "quoted_key (c # cs) =
     (if c = CHR 0x22 \<and> takeWhile (\<lambda>x. x \<noteq> CHR 0x22) cs \<noteq> []
         \<and> prefix [CHR 0x22] (dropWhile (\<lambda>x. x \<noteq> CHR 0x22) cs)
      then Some (takeWhile (\<lambda>x. x \<noteq> CHR 0x22) cs)
      else quoted_key cs)"

text \<open>
  The definition a warning is attached to: among the definitions whose last path segment is
  the warned key, sorted by start offset (the sort is stable), the last one when there are
  several, the only one when there is one.
\<close>

definition matchingDef :: "PropDefinition list \<Rightarrow> StyleguideWarning \<Rightarrow> PropDefinition option" where
  "matchingDef propDefinitions w =
     (case quoted_key (warnMessage w) of
        None \<Rightarrow> None
      | Some warnedKey \<Rightarrow>
          (let matches = sort_key start
                 (filter (\<lambda>d. propPath d \<noteq> [] \<and> last (propPath d) = warnedKey) propDefinitions)
           in if length matches > 1 then Some (last matches)
              else (case matches of [] \<Rightarrow> None | m # _ \<Rightarrow> Some m)))"

definition diagnostic_of :: "host \<Rightarrow> string \<Rightarrow> PropDefinition list \<Rightarrow> StyleguideWarning \<Rightarrow> Diagnostic" where
  "diagnostic_of h document propDefinitions w =
     (let range =
            (case matchingDef propDefinitions w of
               Some d \<Rightarrow> (positionAt h document (start d), positionAt h document (endOffset d))
             | None \<Rightarrow> ((warnLine w - 1, warnColumn w - 1), (warnLine w - 1, warnColumn w)))
      in \<lparr>diagRange = range, diagMessage = warnMessage w, diagSeverity = Warning\<rparr>)"

definition group_byPrototype :: "PropDefinition list \<Rightarrow> (string, PropDefinition list) jsmap" where
  "group_byPrototype propDefinitions =
     foldl (\<lambda>byPrototype d.
              AList.update (prototypeName d)
                ((case map_of byPrototype (prototypeName d) of Some list \<Rightarrow> list | None \<Rightarrow> []) @ [d])
                byPrototype)
       [] propDefinitions"

definition index_groups ::
  "uri \<Rightarrow> PropIndex \<times> PropDefinition list \<Rightarrow> string \<times> PropDefinition list \<Rightarrow> PropIndex \<times> PropDefinition list" where
  "index_groups u acc entry = (indexPrototype (fst acc) (fst entry) (snd entry) u, snd acc @ snd entry)"

text \<open>
  \<open>indexFusionFile(uri, sourceOverride, options)\<close>: the result is the returned flag and the
  state the call leaves. \<open>live\<close> stands for \<open>options?.live\<close>. A rejected
  \<open>openTextDocument\<close> is caught and gives \<open>false\<close> with the state reached so far.
\<close>

definition indexFusionFile ::
  "host \<Rightarrow> WorkspaceIndex \<Rightarrow> uri \<Rightarrow> string option \<Rightarrow> bool \<Rightarrow> bool \<times> WorkspaceIndex" where
  "indexFusionFile h ws u sourceOverride live =
     (let ws1 = (if map_has (filePrototypeMap ws) u
                 then ws\<lparr>prototypeIndex := proto_removeByUri (prototypeIndex ws) u,
                         filePrototypeMap := AList.delete u (filePrototypeMap ws)\<rparr>
                 else ws)
      in case (case sourceOverride of Some s \<Rightarrow> Some s | None \<Rightarrow> openTextDocument h u) of
           None \<Rightarrow> (False, ws1)
         | Some src \<Rightarrow>
             (let pidx = indexDocument (prototypeIndex ws1) u src;
                  ws2 = ws1\<lparr>prototypeIndex := pidx,
                            filePrototypeMap :=
                              AList.update u (getPrototypesFromDocument pidx u) (filePrototypeMap ws1)\<rparr>;
                  parsed = parsePropDefinitions src;
                  propDefinitions = fst parsed
              in if live \<and> length propDefinitions = 0 then (False, ws2)
                 else
                   (let ws3 = (if map_has (filePropMap ws2) u
                               then ws2\<lparr>propIndex := prop_removeByUri (propIndex ws2) u,
                                        filePropMap := AList.delete u (filePropMap ws2),
                                        diagnostics := AList.delete u (diagnostics ws2)\<rparr>
                               else ws2)
                    in case openTextDocument h u of
                         None \<Rightarrow> (False, ws3)
                       | Some document \<Rightarrow>
                           (let ws4 = ws3\<lparr>diagnostics :=
                                            AList.update u
                                              (map (diagnostic_of h document propDefinitions) (snd parsed))
                                              (diagnostics ws3)\<rparr>;
                                byPrototype = group_byPrototype propDefinitions;
                                acc = foldl (index_groups u) (propIndex ws4, []) byPrototype
                            in (True, ws4\<lparr>propIndex := fst acc,
                                          filePropMap := AList.update u (snd acc) (filePropMap ws4)\<rparr>)))))"

definition reindexDocument ::
  "host \<Rightarrow> WorkspaceIndex \<Rightarrow> uri \<Rightarrow> string \<Rightarrow> bool \<Rightarrow> bool \<times> WorkspaceIndex" where
  "reindexDocument h ws u src live = indexFusionFile h ws u (Some src) live"

definition getDiagnostics :: "WorkspaceIndex \<Rightarrow> uri \<Rightarrow> Diagnostic list" where
  "getDiagnostics ws u = (case map_of (diagnostics ws) u of Some ds \<Rightarrow> ds | None \<Rightarrow> [])"

text \<open>
  The two per-file maps of prototype names, the one of the Workspace Index and the one of
  the Prototype Index, are written together; \<open>tracked_consistent\<close> says they know the same
  files.
\<close>

definition tracked_consistent :: "WorkspaceIndex \<Rightarrow> bool" where
  "tracked_consistent ws =
     (set (map fst (filePrototypeMap ws)) = set (map fst (filePrototypes (prototypeIndex ws))))"

section \<open>Example sources\<close>

definition example_host :: "string \<Rightarrow> host" where
  "example_host text = \<lparr>openTextDocument = (\<lambda>u. Some text), positionAt = offsetToPosition\<rparr>"

definition good_source :: string where
  "good_source = ''prototype(X) {\<newline>    foo = 1\<newline>}''"

definition broken_source :: string where
  "broken_source = ''prototype(X) {\<newline>    foo = 1\<newline>''"

definition c6_source :: string where
  "c6_source = ''prototype(Foo:Bar) { @styleguide { props { a { b = 1 } a { b = 2 } } } }''"

definition c6_source_lines :: string where
  "c6_source_lines =
     ''prototype(Foo:Bar) {\<newline>    @styleguide {\<newline>        props {\<newline>            a {\<newline>                b = 1\<newline>            }\<newline>            a {\<newline>                b = 2\<newline>            }\<newline>        }\<newline>    }\<newline>}''"

definition c7_source :: string where
  "c7_source = ''prototype(X) { foo.bar = null }''"

definition merge_source :: string where
  "merge_source =
     ''prototype(X) {\<newline>    @styleguide {\<newline>        props {\<newline>            foo {\<newline>                baz = 1\<newline>            }\<newline>            bar = 2\<newline>        }\<newline>    }\<newline>    baz = null\<newline>    bar = null\<newline>}''"

definition inherited_key_body :: string where
  "inherited_key_body = ''\<newline>@styleguide {\<newline>props {\<newline>toString = 1\<newline>}\<newline>}\<newline>''"

text \<open>The workspace after one successful indexing of \<open>good_source\<close>.\<close>

definition indexed_good :: WorkspaceIndex where
  "indexed_good = snd (indexFusionFile (example_host good_source) empty_WorkspaceIndex ''file:///a.fusion'' (Some good_source) False)"


definition duplicate_blocks_body :: string where
  "duplicate_blocks_body =
     ''\<newline>@styleguide {\<newline>props {\<newline>a {\<newline>}\<newline>a {\<newline>}\<newline>a {\<newline>}\<newline>}\<newline>}\<newline>''"

section \<open>Well-formedness of styleguide trees\<close>

text \<open>
  \<open>keys_distinct\<close>: at every node the keys of the children are pairwise different.
  \<open>lines_within n\<close>: every node below the root carries a line number between 1 and \<open>n\<close>.
\<close>

function keys_distinct :: "StyleguideNode \<Rightarrow> bool" where
  "keys_distinct (StyleguideNode l c ch) =
     (distinct (map fst ch) \<and> list_all (\<lambda>entry. keys_distinct (snd entry)) ch)"
  by pat_completeness auto
termination
proof (relation "measure size")
  show "wf (measure size)" by simp
next
  fix l c :: nat and ch :: "(string \<times> StyleguideNode) list" and entry :: "string \<times> StyleguideNode"
  assume "entry \<in> set ch"
  then have "size (snd entry) < Suc (size_list (size_prod (\<lambda>_. 0) size) ch)"
    by (induction ch) (auto simp: less_Suc_eq_le)
  then show "(snd entry, StyleguideNode l c ch) \<in> measure size" by simp
qed

function lines_within :: "nat \<Rightarrow> StyleguideNode \<Rightarrow> bool" where
  "lines_within n (StyleguideNode l c ch) =
     list_all (\<lambda>entry. 0 < nodeLine (snd entry) \<and> nodeLine (snd entry) \<le> n \<and> lines_within n (snd entry)) ch"
  by pat_completeness auto
termination
proof (relation "measure (\<lambda>(n, node). size node)")
  show "wf (measure (\<lambda>(n, node). size node))" by simp
next
  fix n l c :: nat and ch :: "(string \<times> StyleguideNode) list" and entry :: "string \<times> StyleguideNode"
  assume "entry \<in> set ch"
  then have "size (snd entry) < Suc (size_list (size_prod (\<lambda>_. 0) size) ch)"
    by (induction ch) (auto simp: less_Suc_eq_le)
  then show "((n, snd entry), (n, StyleguideNode l c ch)) \<in> measure (\<lambda>(n, node). size node)" by simp
qed

text \<open>A source in which two blocks declare the same prototype name.\<close>

definition two_blocks_source :: string where
  "two_blocks_source =
     ''prototype(X) {\<newline>    @styleguide {\<newline>        props {\<newline>            foo = 1\<newline>        }\<newline>    }\<newline>    bar = null\<newline>}\<newline>prototype(X) {\<newline>    @styleguide {\<newline>        props {\<newline>            baz = 1\<newline>        }\<newline>    }\<newline>    foo = null\<newline>}''"

section \<open>The merge policy in the words of the specification\<close>

text \<open>
  Per prototype block: the styleguide entries, then the default entries whose full dotted
  path is the full dotted path of no styleguide entry.
\<close>

definition merge_spec :: "PropDefinition list \<Rightarrow> PropDefinition list \<Rightarrow> PropDefinition list" where
  "merge_spec styleguideEntries defaultEntries =
     styleguideEntries @
     filter (\<lambda>d. \<not> list_ex (\<lambda>s. join_dot (propPath s) = join_dot (propPath d)) styleguideEntries)
       defaultEntries"

text \<open>What the two prop sources produce for one block of a source.\<close>

definition block_body :: "string \<Rightarrow> PrototypeBlock \<Rightarrow> string" where
  "block_body src proto = slice src (bodyStart proto) (bodyEnd proto)"

definition block_styleguide :: "string \<Rightarrow> PrototypeBlock \<Rightarrow> PropDefinition list" where
  "block_styleguide src proto =
     flattenStyleguideTree (fst (parseStyleguidePropsTree (block_body src proto)))
       (blockName proto) (block_body src proto) (bodyStart proto)"

definition block_defaults :: "string \<Rightarrow> PrototypeBlock \<Rightarrow> PropDefinition list" where
  "block_defaults src proto = parseDefaultProps (block_body src proto) (blockName proto) (bodyStart proto)"

section \<open>Properties of the Prop Index\<close>

lemma pathsEqual_iff: "pathsEqual a b \<longleftrightarrow> a = b"
  unfolding pathsEqual_def list_all_iff using list_eq_iff_nth_eq[of a b] by auto

lemma suffix_drop_iff: "length c \<le> length f \<Longrightarrow> suffix c f \<longleftrightarrow> c = drop (length f - length c) f"
  by (auto simp: suffix_def intro: suffix_drop) (metis append_take_drop_id)

lemma isSuffix_iff: "isSuffix full candidate \<longleftrightarrow> suffix candidate full"
proof (cases "length candidate > length full")
  case True
  then show ?thesis by (auto simp: isSuffix_def dest: suffix_length_le)
next
  case False
  then have le: "length candidate \<le> length full" by simp
  have "suffix candidate full \<longleftrightarrow> candidate = drop (length full - length candidate) full"
    using le by (rule suffix_drop_iff)
  also have "\<dots> \<longleftrightarrow> (\<forall>j<length candidate. candidate ! j = full ! (length full - length candidate + j))"
    using le list_eq_iff_nth_eq[of candidate "drop (length full - length candidate) full"] by auto
  also have "\<dots> \<longleftrightarrow> (\<forall>i\<in>set [1..<length candidate + 1]. full ! (length full - i) = candidate ! (length candidate - i))"
  proof (intro iffI ballI allI impI)
    fix i assume h: "\<forall>j<length candidate. candidate ! j = full ! (length full - length candidate + j)"
      and i: "i \<in> set [1..<length candidate + 1]"
    from i have "length candidate - i < length candidate" by auto
    with h have "candidate ! (length candidate - i) = full ! (length full - length candidate + (length candidate - i))" by blast
    moreover have "length full - length candidate + (length candidate - i) = length full - i" using le i by auto
    ultimately show "full ! (length full - i) = candidate ! (length candidate - i)" by simp
  next
    fix j assume h: "\<forall>i\<in>set [1..<length candidate + 1]. full ! (length full - i) = candidate ! (length candidate - i)"
      and j: "j < length candidate"
    then have "length candidate - j \<in> set [1..<length candidate + 1]" by auto
    with h have "full ! (length full - (length candidate - j)) = candidate ! (length candidate - (length candidate - j))" by blast
    moreover have "length full - (length candidate - j) = length full - length candidate + j" using le j by auto
    moreover have "length candidate - (length candidate - j) = j" using j by auto
    ultimately show "candidate ! j = full ! (length full - length candidate + j)" by simp
  qed
  finally have "suffix candidate full \<longleftrightarrow> list_all (\<lambda>i. full ! (length full - i) = candidate ! (length candidate - i)) [1..<length candidate + 1]"
    unfolding list_all_iff .
  then show ?thesis using False unfolding isSuffix_def by simp
qed

lemma strict_prefix_take: "strict_prefix p q \<longleftrightarrow> length p < length q \<and> take (length p) q = p"
  by (auto simp: strict_prefix_def prefix_def) (metis append_take_drop_id)

lemma find_first: "\<forall>x\<in>set xs. \<not> P x \<Longrightarrow> P e \<Longrightarrow> find P (xs @ e # ys) = Some e"
  by (induction xs) auto

lemma resolve_scan:
  "foldl (resolve_step p) (None, 0) props = (b, n) \<Longrightarrow>
     (b = None \<and> n = 0 \<and> (\<forall>e\<in>set props. suffix (propPath e) p \<longrightarrow> propPath e = []))
   \<or> (\<exists>pre e post. props = pre @ e # post \<and> b = Some e \<and> n = length (propPath e)
        \<and> suffix (propPath e) p \<and> 0 < length (propPath e)
        \<and> (\<forall>x\<in>set pre. suffix (propPath x) p \<longrightarrow> length (propPath x) < length (propPath e))
        \<and> (\<forall>x\<in>set post. suffix (propPath x) p \<longrightarrow> length (propPath x) \<le> length (propPath e)))"
proof (induction props arbitrary: b n rule: rev_induct)
  case Nil
  then show ?case by simp
next
  case (snoc x xs)
  obtain b0 n0 where acc: "foldl (resolve_step p) (None, 0) xs = (b0, n0)" by fastforce
  note ih = snoc.IH[OF acc]
  have res: "(b, n) = resolve_step p (b0, n0) x" using snoc.prems acc by simp
  show ?case
  proof (cases "suffix (propPath x) p \<and> length (propPath x) > n0")
    case True
    then have bn: "b = Some x" "n = length (propPath x)" using res by (auto simp: resolve_step_def isSuffix_iff)
    have "\<forall>y\<in>set xs. suffix (propPath y) p \<longrightarrow> length (propPath y) < length (propPath x)"
      using ih True by (elim disjE) (fastforce)+
    then show ?thesis using True bn by (intro disjI2 exI[of _ xs] exI[of _ x] exI[of _ "[]"]) auto
  next
    case False
    then have bn: "b = b0" "n = n0" using res by (auto simp: resolve_step_def isSuffix_iff)
    from ih show ?thesis
    proof (elim disjE exE conjE)
      assume "b0 = None" "n0 = 0" "\<forall>e\<in>set xs. suffix (propPath e) p \<longrightarrow> propPath e = []"
      then show ?thesis using bn False by auto
    next
      fix pre e post
      assume h: "xs = pre @ e # post" "b0 = Some e" "n0 = length (propPath e)" "suffix (propPath e) p"
        "0 < length (propPath e)"
        "\<forall>x\<in>set pre. suffix (propPath x) p \<longrightarrow> length (propPath x) < length (propPath e)"
        "\<forall>x\<in>set post. suffix (propPath x) p \<longrightarrow> length (propPath x) \<le> length (propPath e)"
      then show ?thesis using bn False
        by (intro disjI2 exI[of _ pre] exI[of _ e] exI[of _ "post @ [x]"]) auto
    qed
  qed
qed

lemma resolve_loop_spec:
  assumes ne: "\<forall>e\<in>set props. propPath e \<noteq> []"
  shows "fst (foldl (resolve_step p) (None, 0) props) =
         (let cs = filter (\<lambda>e. suffix (propPath e) p) props
          in find (\<lambda>e. list_all (\<lambda>e'. length (propPath e') \<le> length (propPath e)) cs) cs)"
proof -
  obtain b n where acc: "foldl (resolve_step p) (None, 0) props = (b, n)" by fastforce
  from resolve_scan[OF acc] show ?thesis
  proof (elim disjE exE conjE)
    assume "b = None" "n = 0" "\<forall>e\<in>set props. suffix (propPath e) p \<longrightarrow> propPath e = []"
    then have "filter (\<lambda>e. suffix (propPath e) p) props = []" using ne by (auto simp: filter_empty_conv)
    then show ?thesis using acc \<open>b = None\<close> by simp
  next
    fix pre e post
    assume h: "props = pre @ e # post" "b = Some e" "n = length (propPath e)" "suffix (propPath e) p"
        "0 < length (propPath e)"
        "\<forall>x\<in>set pre. suffix (propPath x) p \<longrightarrow> length (propPath x) < length (propPath e)"
        "\<forall>x\<in>set post. suffix (propPath x) p \<longrightarrow> length (propPath x) \<le> length (propPath e)"
    let ?S = "\<lambda>e. suffix (propPath e) p"
    let ?cs = "filter ?S props"
    let ?Q = "\<lambda>e. list_all (\<lambda>e'. length (propPath e') \<le> length (propPath e)) ?cs"
    have cs: "?cs = filter ?S pre @ e # filter ?S post" using h by simp
    have "?Q e" using h by (fastforce simp: list_all_iff)
    moreover have "\<forall>x\<in>set (filter ?S pre). \<not> ?Q x"
    proof
      fix x assume "x \<in> set (filter ?S pre)"
      then have "length (propPath x) < length (propPath e)" using h by auto
      moreover have "e \<in> set ?cs" using cs by simp
      ultimately show "\<not> ?Q x" unfolding list_all_iff by (meson not_less)
    qed
    ultimately have "find ?Q ?cs = Some e" unfolding cs[symmetric] using cs find_first[of "filter ?S pre" ?Q e "filter ?S post"] by simp
    then show ?thesis using acc h by (simp add: Let_def)
  qed
qed

lemma paths_nonempty_stored: "paths_nonempty idx \<Longrightarrow> \<forall>e\<in>set (stored idx name). propPath e \<noteq> []"
proof (cases "map_of idx name")
  case None
  then show ?thesis by (simp add: stored_def)
next
  case (Some ps)
  assume pn: "paths_nonempty idx"
  from Some have "(name, ps) \<in> set idx" by (rule map_of_SomeD)
  with pn have "\<forall>e\<in>set ps. propPath e \<noteq> []" unfolding paths_nonempty_def list_all_iff by fastforce
  then show ?thesis using Some by (simp add: stored_def)
qed

text \<open>
  Claim C1. For every prototype name and usage path, \<open>resolve\<close> returns the first stored
  entry whose path equals the usage path; only when there is none it returns, among the
  entries whose path is a suffix of the usage path, the one with the longest path, the first
  such entry in list order on a tie; and nothing when no entry matches either way. The stored
  paths are those of the data model: each has at least one segment.
\<close>

theorem resolve_matches_spec:
  assumes "paths_nonempty byPrototype"
  shows "resolve byPrototype name usagePath = resolve_spec (stored byPrototype name) usagePath"
proof (cases "map_of byPrototype name")
  case None
  then show ?thesis by (simp add: resolve_def resolve_spec_def stored_def)
next
  case (Some props)
  have ne: "\<forall>e\<in>set props. propPath e \<noteq> []" using paths_nonempty_stored[OF assms, of name] Some by (simp add: stored_def)
  have eq: "(\<lambda>prop. pathsEqual usagePath (propPath prop)) = (\<lambda>e. propPath e = usagePath)"
    by (auto simp: pathsEqual_iff)
  show ?thesis
  proof (cases "props = []")
    case True
    then show ?thesis using Some by (simp add: resolve_def resolve_spec_def stored_def)
  next
    case False
    then show ?thesis using Some resolve_loop_spec[OF ne, of usagePath]
      by (simp add: resolve_def resolve_spec_def stored_def eq split: option.splits)
  qed
qed


theorem resolve_matches_spec_witness:
  "paths_nonempty example_index \<and>
   resolve example_index ''X'' [''props'', ''foo'', ''bar'', ''baz''] =
     Some \<lparr>prototypeName = ''X'', propPath = [''bar'', ''baz''], start = 40, endOffset = 43, source = Styleguide, uri = ''file:///a.fusion''\<rparr> \<and>
   resolve_spec (stored example_index ''X'') [''props'', ''foo'', ''bar'', ''baz''] =
     Some \<lparr>prototypeName = ''X'', propPath = [''bar'', ''baz''], start = 40, endOffset = 43, source = Styleguide, uri = ''file:///a.fusion''\<rparr>"
proof -
  have pn: "paths_nonempty example_index"
    by (simp add: paths_nonempty_def example_index_def)
  have sp: "resolve_spec (stored example_index ''X'') [''props'', ''foo'', ''bar'', ''baz''] =
     Some \<lparr>prototypeName = ''X'', propPath = [''bar'', ''baz''], start = 40, endOffset = 43, source = Styleguide, uri = ''file:///a.fusion''\<rparr>"
    by (simp add: resolve_spec_def stored_def example_index_def suffix_to_prefix)
  show ?thesis using pn sp resolve_matches_spec[OF pn, of "''X''" "[''props'', ''foo'', ''bar'', ''baz'']"] by simp
qed


lemma getChildren_loop:
  "set (foldl (getChildren_step p) acc props) =
     set acc \<union> {propPath e ! length p | e. e \<in> set props \<and> strict_prefix p (propPath e)}
   \<and> (distinct acc \<longrightarrow> distinct (foldl (getChildren_step p) acc props))"
proof (induction props arbitrary: acc)
  case Nil
  then show ?case by simp
next
  case (Cons x xs)
  have pre: "list_all (\<lambda>i. propPath x ! i = p ! i) [0..<length p] \<longleftrightarrow> take (length p) (propPath x) = p"
    if "length p < length (propPath x)"
    unfolding list_all_iff using that list_eq_iff_nth_eq[of "take (length p) (propPath x)" p] by auto
  note sp = strict_prefix_take[of p "propPath x"]
  show ?case
  proof (cases "strict_prefix p (propPath x)")
    case True
    then have st: "getChildren_step p acc x = set_add acc (propPath x ! length p)"
      using sp pre by (auto simp: getChildren_step_def)
    show ?thesis using Cons.IH[of "set_add acc (propPath x ! length p)"] True st
      by (auto simp: set_add_def)
  next
    case False
    then have st: "getChildren_step p acc x = acc"
      using sp pre by (auto simp: getChildren_step_def)
    show ?thesis using Cons.IH[of acc] False st by auto
  qed
qed

text \<open>
  Claim C2. For every prototype name and usage path \<open>p\<close>, \<open>getChildren\<close> returns, without
  duplicates, exactly the elements at index \<open>|p|\<close> of the stored entries whose path is strictly
  longer than \<open>p\<close> and has \<open>p\<close> as an element-wise prefix; so it is empty when no stored
  path strictly extends \<open>p\<close>.
\<close>

theorem getChildren_exact:
  "set (getChildren byPrototype name usagePath) =
     {propPath e ! length usagePath | e. e \<in> set (stored byPrototype name) \<and> strict_prefix usagePath (propPath e)}
   \<and> distinct (getChildren byPrototype name usagePath)"
  using getChildren_loop[of usagePath "[]"]
  by (auto simp: getChildren_def stored_def split: option.splits)

theorem getChildren_exact_witness:
  "getChildren example_index ''X'' [''bar''] = [''baz''] \<and>
   {propPath e ! length [''bar''] | e. e \<in> set (stored example_index ''X'') \<and> strict_prefix [''bar''] (propPath e)} = {''baz''} \<and>
   getChildren example_index ''X'' [''baz''] = [] \<and>
   {propPath e ! length [''baz''] | e. e \<in> set (stored example_index ''X'') \<and> strict_prefix [''baz''] (propPath e)} = {}"
proof -
  have a: "getChildren example_index ''X'' [''bar''] = [''baz'']"
    by (simp add: getChildren_def getChildren_step_def set_add_def example_index_def)
  have b: "getChildren example_index ''X'' [''baz''] = []"
    by (simp add: getChildren_def getChildren_step_def set_add_def example_index_def)
  show ?thesis
    using getChildren_exact[of example_index "''X''" "[''bar'']"] getChildren_exact[of example_index "''X''" "[''baz'']"]
    unfolding a b by simp
qed

section \<open>Properties of the prototype declaration scan and the Prototype Index\<close>

lemma prefix_drop_eq: "prefix p s \<Longrightarrow> s = p @ drop (length p) s"
  by (auto simp: prefix_def)

lemma match_prototype_sound:
  assumes "match_prototype s = Some (nm, n)"
  shows "\<exists>w1 w2 w3 rest. s = ''prototype'' @ w1 @ ''('' @ w2 @ nm @ w3 @ '')'' @ rest
           \<and> n = length (''prototype'' @ w1 @ ''('' @ w2 @ nm @ w3 @ '')'')
           \<and> list_all is_space w1 \<and> list_all is_space w2 \<and> list_all is_space w3
           \<and> nm \<noteq> [] \<and> list_all is_name_char nm"
proof -
  define s1 where "s1 = drop 9 s"
  define w1 where "w1 = takeWhile is_space s1"
  define s2 where "s2 = dropWhile is_space s1"
  define s3 where "s3 = drop 1 s2"
  define w2 where "w2 = takeWhile is_space s3"
  define s4 where "s4 = dropWhile is_space s3"
  define s5 where "s5 = dropWhile is_name_char s4"
  define w3 where "w3 = takeWhile is_space s5"
  define s6 where "s6 = dropWhile is_space s5"
  note defs = s1_def w1_def s2_def s3_def w2_def s4_def s5_def w3_def s6_def
  from assms have p1: "prefix ''prototype'' s" and p2: "prefix ''('' s2" and p3: "prefix '')'' s6"
    and nm: "nm = takeWhile is_name_char s4" "nm \<noteq> []"
    and n: "n = 9 + length w1 + 1 + length w2 + length nm + length w3 + 1"
    unfolding match_prototype_def Let_def defs by (auto split: if_splits)
  have len9: "length ''prototype'' = (9::nat)" by simp
  have e1: "s = ''prototype'' @ s1" using prefix_drop_eq[OF p1] unfolding len9 s1_def .
  have e2: "s1 = w1 @ s2" by (simp add: w1_def s2_def)
  have len1: "length ''('' = (1::nat)" "length '')'' = (1::nat)" by simp_all
  have e3: "s2 = ''('' @ s3" using prefix_drop_eq[OF p2] unfolding len1 s3_def .
  have e4: "s3 = w2 @ s4" by (simp add: w2_def s4_def)
  have e5: "s4 = nm @ s5" by (simp add: nm s5_def)
  have e6: "s5 = w3 @ s6" by (simp add: w3_def s6_def)
  have e7: "s6 = '')'' @ drop 1 s6" using prefix_drop_eq[OF p3] unfolding len1 .
  have "s = ''prototype'' @ w1 @ ''('' @ w2 @ nm @ w3 @ '')'' @ drop 1 s6"
    by (subst e1, subst e2, subst e3, subst e4, subst e5, subst e6, subst e7) simp
  moreover have "list_all is_space w1" "list_all is_space w2" "list_all is_space w3" "list_all is_name_char nm"
    unfolding w1_def w2_def w3_def nm list_all_iff by (auto dest: set_takeWhileD)
  ultimately show ?thesis using n nm by (intro exI[of _ w1] exI[of _ w2] exI[of _ w3] exI[of _ "drop 1 s6"]) simp
qed

lemma parsePrototypes_from_sound:
  "d \<in> set (parsePrototypes_from pos s) \<Longrightarrow>
     \<exists>k. declStart d = pos + k \<and> match_prototype (drop k s) = Some (declName d, declEnd d - declStart d)
         \<and> declStart d \<le> declEnd d"
proof (induction pos s rule: parsePrototypes_from.induct)
  case (1 pos)
  then show ?case by simp
next
  case (2 pos c cs)
  show ?case
  proof (cases "match_prototype (c # cs)")
    case None
    from "2.prems" None have "d \<in> set (parsePrototypes_from (Suc pos) cs)" by simp
    from "2.IH"(1)[OF None this] obtain k where "declStart d = Suc pos + k"
      "match_prototype (drop k cs) = Some (declName d, declEnd d - declStart d)" "declStart d \<le> declEnd d"
      by blast
    then show ?thesis by (intro exI[of _ "Suc k"]) simp
  next
    case (Some r)
    obtain nm n where r: "r = (nm, n)" by (cases r)
    from "2.prems" Some r consider
      (here) "d = \<lparr>declName = nm, declStart = pos, declEnd = pos + n\<rparr>"
      | (later) "d \<in> set (parsePrototypes_from (pos + n) (drop n (c # cs)))" by auto
    then show ?thesis
    proof cases
      case here
      then show ?thesis using Some r by (intro exI[of _ 0]) simp
    next
      case later
      from "2.IH"(2)[OF Some[unfolded r] refl later] obtain k where
        k: "declStart d = pos + n + k"
        "match_prototype (drop k (drop n (c # cs))) = Some (declName d, declEnd d - declStart d)"
        "declStart d \<le> declEnd d" by blast
      then show ?thesis by (intro exI[of _ "n + k"]) (simp add: add.commute)
    qed
  qed
qed

text \<open>
  Claim C9. For all source text, every declaration reported by the prototype declaration scan
  has offsets whose slice of the source reads \<open>prototype\<close>, optional white space, \<open>(\<close>,
  optional white space, the reported name, optional white space, \<open>)\<close>; the reported name is
  a non-empty run of name characters.
\<close>

theorem parsePrototypes_slice:
  "\<forall>d\<in>set (parsePrototypes src).
     \<exists>w1 w2 w3. slice src (declStart d) (declEnd d) = ''prototype'' @ w1 @ ''('' @ w2 @ declName d @ w3 @ '')''
       \<and> list_all is_space w1 \<and> list_all is_space w2 \<and> list_all is_space w3
       \<and> declName d \<noteq> [] \<and> list_all is_name_char (declName d)"
proof
  fix d assume "d \<in> set (parsePrototypes src)"
  then obtain k where k: "declStart d = k"
    "match_prototype (drop k src) = Some (declName d, declEnd d - declStart d)" "declStart d \<le> declEnd d"
    using parsePrototypes_from_sound[of d 0 src] by (auto simp: parsePrototypes_def)
  from match_prototype_sound[OF k(2)] obtain w1 w2 w3 rest where
    m: "drop k src = ''prototype'' @ w1 @ ''('' @ w2 @ declName d @ w3 @ '')'' @ rest"
    "declEnd d - declStart d = length (''prototype'' @ w1 @ ''('' @ w2 @ declName d @ w3 @ '')'')"
    "list_all is_space w1" "list_all is_space w2" "list_all is_space w3"
    "declName d \<noteq> []" "list_all is_name_char (declName d)" by blast
  have "slice src (declStart d) (declEnd d) = take (declEnd d - declStart d) (drop k src)"
    using k by (simp add: slice_def drop_take)
  also have "\<dots> = ''prototype'' @ w1 @ ''('' @ w2 @ declName d @ w3 @ '')''"
    unfolding m(1) m(2) by simp
  finally show "\<exists>w1 w2 w3. slice src (declStart d) (declEnd d) = ''prototype'' @ w1 @ ''('' @ w2 @ declName d @ w3 @ '')''
       \<and> list_all is_space w1 \<and> list_all is_space w2 \<and> list_all is_space w3
       \<and> declName d \<noteq> [] \<and> list_all is_name_char (declName d)"
    using m by blast
qed

theorem parsePrototypes_slice_witness:
  "parsePrototypes ''prototype(Foo:Bar) < prototype (Baz) {'' =
     [\<lparr>declName = ''Foo:Bar'', declStart = 0, declEnd = 18\<rparr>,
      \<lparr>declName = ''Baz'', declStart = 21, declEnd = 36\<rparr>] \<and>
   slice ''prototype(Foo:Bar) < prototype (Baz) {'' 0 18 = ''prototype(Foo:Bar)'' \<and>
   slice ''prototype(Foo:Bar) < prototype (Baz) {'' 21 36 = ''prototype (Baz)'' \<and>
   (\<exists>w1 w2 w3. slice ''prototype(Foo:Bar) < prototype (Baz) {'' 21 36 = ''prototype'' @ w1 @ ''('' @ w2 @ ''Baz'' @ w3 @ '')''
       \<and> list_all is_space w1 \<and> list_all is_space w2 \<and> list_all is_space w3)"
proof -
  have p: "parsePrototypes ''prototype(Foo:Bar) < prototype (Baz) {'' =
     [\<lparr>declName = ''Foo:Bar'', declStart = 0, declEnd = 18\<rparr>,
      \<lparr>declName = ''Baz'', declStart = 21, declEnd = 36\<rparr>]"
    by code_simp
  have s1: "slice ''prototype(Foo:Bar) < prototype (Baz) {'' 0 18 = ''prototype(Foo:Bar)''"
    by code_simp
  have s2: "slice ''prototype(Foo:Bar) < prototype (Baz) {'' 21 36 = ''prototype (Baz)''"
    by code_simp
  have mem: "\<lparr>declName = ''Baz'', declStart = 21, declEnd = 36\<rparr> \<in> set (parsePrototypes ''prototype(Foo:Bar) < prototype (Baz) {'')"
    unfolding p by simp
  from bspec[OF parsePrototypes_slice mem] obtain w1 w2 w3 where
    w: "slice ''prototype(Foo:Bar) < prototype (Baz) {'' (declStart \<lparr>declName = ''Baz'', declStart = 21, declEnd = 36\<rparr>)
          (declEnd \<lparr>declName = ''Baz'', declStart = 21, declEnd = 36\<rparr>) =
        ''prototype'' @ w1 @ ''('' @ w2 @ declName \<lparr>declName = ''Baz'', declStart = 21, declEnd = 36\<rparr> @ w3 @ '')''"
    "list_all is_space w1" "list_all is_space w2" "list_all is_space w3"
    by blast
  from w(1) have "slice ''prototype(Foo:Bar) < prototype (Baz) {'' 21 36 = ''prototype'' @ w1 @ ''('' @ w2 @ ''Baz'' @ w3 @ '')''"
    by simp
  with w have "\<exists>w1 w2 w3. slice ''prototype(Foo:Bar) < prototype (Baz) {'' 21 36 = ''prototype'' @ w1 @ ''('' @ w2 @ ''Baz'' @ w3 @ '')''
       \<and> list_all is_space w1 \<and> list_all is_space w2 \<and> list_all is_space w3"
    by blast
  with p s1 s2 show ?thesis by blast
qed

lemma indexDocument_names:
  "snd (foldl (indexDocument_step u src) acc decls) = snd acc @ map declName decls"
  by (induction decls arbitrary: acc) (simp_all add: indexDocument_step_def Let_def)

lemma getPrototypesFromDocument_indexDocument:
  "getPrototypesFromDocument (indexDocument idx u src) u = map declName (parsePrototypes src)"
  by (simp add: getPrototypesFromDocument_def indexDocument_def Let_def indexDocument_names update_conv')

text \<open>
  Claim C10. After \<open>clear()\<close>, \<open>get\<close> returns nothing for every name and \<open>getAllNames()\<close> is
  empty, while \<open>getPrototypesFromDocument\<close> returns for every file what it returned before:
  the per-file name map is untouched, so a file indexed before the clear still lists the
  names of its declarations.
\<close>

theorem clear_keeps_file_names:
  "proto_get (proto_clear idx) name = None \<and>
   getAllNames (proto_clear idx) = [] \<and>
   getPrototypesFromDocument (proto_clear idx) f = getPrototypesFromDocument idx f \<and>
   getPrototypesFromDocument (proto_clear (indexDocument idx f src)) f = map declName (parsePrototypes src)"
  using getPrototypesFromDocument_indexDocument[of idx f src]
  by (simp add: proto_get_def proto_clear_def getAllNames_def getPrototypesFromDocument_def)

theorem clear_keeps_file_names_witness:
  "proto_get (proto_clear (indexDocument empty_PrototypeIndex ''file:///f.fusion'' ''prototype(A) < prototype(B) {'')) ''A'' = None \<and>
   getAllNames (proto_clear (indexDocument empty_PrototypeIndex ''file:///f.fusion'' ''prototype(A) < prototype(B) {'')) = [] \<and>
   getPrototypesFromDocument (proto_clear (indexDocument empty_PrototypeIndex ''file:///f.fusion'' ''prototype(A) < prototype(B) {'')) ''file:///f.fusion'' = [''A'', ''B'']"
proof -
  have "map declName (parsePrototypes ''prototype(A) < prototype(B) {'') = [''A'', ''B'']"
    by code_simp
  then show ?thesis
    using clear_keeps_file_names[of "indexDocument empty_PrototypeIndex ''file:///f.fusion'' ''prototype(A) < prototype(B) {''" "''A''" "''file:///f.fusion''" "''prototype(A) < prototype(B) {''"]
      clear_keeps_file_names[of empty_PrototypeIndex "''A''" "''file:///f.fusion''" "''prototype(A) < prototype(B) {''"]
    by simp
qed

text \<open>
  Claim C8. The claim says that \<open>removeByUri(f)\<close> leaves \<open>get(name)\<close> unchanged when the entry
  of \<open>name\<close> is owned by another file \<open>g\<close>. The code deletes every name recorded for \<open>f\<close>
  without looking at the owner of the entry: after \<open>f\<close> and then \<open>g\<close> declared \<open>A\<close>, the entry
  belongs to \<open>g\<close>, and removing \<open>f\<close> deletes it.
\<close>

theorem removeByUri_deletes_foreign_entry:
  "map_option protoUri
     (proto_get (indexDocument (indexDocument empty_PrototypeIndex ''file:///f.fusion'' ''prototype(A) {}'')
                   ''file:///g.fusion'' ''prototype(A) {}'') ''A'') = Some ''file:///g.fusion'' \<and>
   proto_get (proto_removeByUri
                (indexDocument (indexDocument empty_PrototypeIndex ''file:///f.fusion'' ''prototype(A) {}'')
                   ''file:///g.fusion'' ''prototype(A) {}'') ''file:///f.fusion'') ''A'' = None"
  by code_simp

section \<open>Properties of the Workspace Index\<close>

lemma map_of_delete_names:
  "map_of (foldl (\<lambda>ps name. AList.delete name ps) ps names) x = (if x \<in> set names then None else map_of ps x)"
  by (induction names arbitrary: ps) (auto simp: delete_conv')

lemma fst_indexDocument_step:
  "fst (indexDocument_step u src a d) =
     AList.update (declName d)
       \<lparr>protoName = declName d, protoUri = u,
          protoRange = (offsetToPosition src (declStart d), offsetToPosition src (declEnd d))\<rparr> (fst a)"
  by (simp add: indexDocument_step_def Let_def)

lemma map_of_indexDocument_fold:
  "map_of (fst (foldl (indexDocument_step u src) (ps, acc) decls)) x =
     (if x \<in> set (map declName decls)
      then map_of (fst (foldl (indexDocument_step u src) ([], acc') decls)) x
      else map_of ps x)"
proof (induction decls rule: rev_induct)
  case Nil
  then show ?case by simp
next
  case (snoc d ds)
  show ?case
  proof (cases "x = declName d")
    case True
    then show ?thesis by (simp add: fst_indexDocument_step update_conv')
  next
    case False
    then show ?thesis using snoc.IH by (simp add: fst_indexDocument_step update_conv')
  qed
qed

lemma proto_get_indexDocument:
  "proto_get (indexDocument idx u src) x =
     (if x \<in> set (map declName (parsePrototypes src))
      then proto_get (indexDocument empty_PrototypeIndex u src) x
      else proto_get idx x)"
  using map_of_indexDocument_fold[of u src "prototypes idx" "[]" "parsePrototypes src" x "[]"]
  by (simp add: proto_get_def indexDocument_def Let_def empty_PrototypeIndex_def)

lemma proto_get_removeByUri:
  "proto_get (proto_removeByUri idx u) x =
     (if x \<in> set (getPrototypesFromDocument idx u) then None else proto_get idx x)"
  by (auto simp: proto_get_def proto_removeByUri_def getPrototypesFromDocument_def map_of_delete_names
           split: option.splits)

lemma proto_removeByUri_untracked:
  "u \<notin> set (map fst (filePrototypes idx)) \<Longrightarrow> proto_removeByUri idx u = idx"
  by (simp add: proto_removeByUri_def map_of_eq_None_iff[THEN iffD2])

lemma filePrototypes_indexDocument:
  "map fst (filePrototypes (indexDocument idx u src)) = map fst (AList.update u x (filePrototypes idx))"
  by (simp add: indexDocument_def Let_def update_keys)

lemma keys_delete: "fst ` set (AList.delete u m) = fst ` set m - {u}"
proof -
  have "set (map fst (AList.delete u m)) = set (removeAll u (map fst m))" by (simp only: delete_keys)
  then show ?thesis by simp
qed

lemma filePrototypes_removeByUri:
  "set (map fst (filePrototypes (proto_removeByUri idx u))) = set (map fst (filePrototypes idx)) - {u}"
proof (cases "map_of (filePrototypes idx) u")
  case None
  then have "u \<notin> set (map fst (filePrototypes idx))" by (simp add: map_of_eq_None_iff)
  then show ?thesis using None by (simp add: proto_removeByUri_def)
next
  case (Some names)
  then show ?thesis by (simp add: proto_removeByUri_def delete_keys)
qed

lemma tracked_after_removal:
  assumes "tracked_consistent ws"
  shows "set (map fst (filePrototypeMap
            (if map_has (filePrototypeMap ws) u
             then ws\<lparr>prototypeIndex := proto_removeByUri (prototypeIndex ws) u,
                     filePrototypeMap := AList.delete u (filePrototypeMap ws)\<rparr>
             else ws))) =
         set (map fst (filePrototypes (prototypeIndex
            (if map_has (filePrototypeMap ws) u
             then ws\<lparr>prototypeIndex := proto_removeByUri (prototypeIndex ws) u,
                     filePrototypeMap := AList.delete u (filePrototypeMap ws)\<rparr>
             else ws))))"
  using assms filePrototypes_removeByUri[of "prototypeIndex ws" u]
  by (simp add: tracked_consistent_def keys_delete)

text \<open>Every call of \<open>indexFusionFile\<close> keeps the two per-file maps consistent.\<close>

lemma indexFusionFile_consistent:
  assumes "tracked_consistent ws"
  shows "tracked_consistent (snd (indexFusionFile h ws u sourceOverride live))"
proof -
  define ws1 where "ws1 = (if map_has (filePrototypeMap ws) u
             then ws\<lparr>prototypeIndex := proto_removeByUri (prototypeIndex ws) u,
                     filePrototypeMap := AList.delete u (filePrototypeMap ws)\<rparr>
             else ws)"
  have c1: "tracked_consistent ws1"
    unfolding ws1_def tracked_consistent_def using tracked_after_removal[OF assms] .
  have c2: "set (map fst (AList.update u x (filePrototypeMap ws1))) =
            set (map fst (filePrototypes (indexDocument (prototypeIndex ws1) u src)))" for x src
    using c1 filePrototypes_indexDocument[of "prototypeIndex ws1" u src x]
    by (simp add: tracked_consistent_def update_keys)
  show ?thesis
    unfolding indexFusionFile_def ws1_def[symmetric] Let_def
    using c1 c2 by (auto simp: tracked_consistent_def split: option.splits)
qed

lemma empty_consistent: "tracked_consistent empty_WorkspaceIndex"
  by (simp add: tracked_consistent_def empty_WorkspaceIndex_def empty_PrototypeIndex_def)

text \<open>
  Claim C3. A per-file indexing call with the live-edit flag set, whose source parses to zero
  prop definitions, returns failure and leaves the Prop Index and the stored diagnostics as
  they were; the Prototype Index is updated all the same: the names recorded for the file are
  removed and the declarations of the current source are inserted.
\<close>

theorem live_edit_guard:
  assumes "tracked_consistent ws"
    and "live"
    and "(case sourceOverride of Some s \<Rightarrow> Some s | None \<Rightarrow> openTextDocument h u) = Some src"
    and "fst (parsePropDefinitions src) = []"
  shows "fst (indexFusionFile h ws u sourceOverride live) = False
    \<and> propIndex (snd (indexFusionFile h ws u sourceOverride live)) = propIndex ws
    \<and> diagnostics (snd (indexFusionFile h ws u sourceOverride live)) = diagnostics ws
    \<and> prototypeIndex (snd (indexFusionFile h ws u sourceOverride live)) =
        indexDocument (proto_removeByUri (prototypeIndex ws) u) u src
    \<and> proto_get (prototypeIndex (snd (indexFusionFile h ws u sourceOverride live))) name =
        (if name \<in> set (map declName (parsePrototypes src))
         then proto_get (indexDocument empty_PrototypeIndex u src) name
         else if name \<in> set (getPrototypesFromDocument (prototypeIndex ws) u) then None
         else proto_get (prototypeIndex ws) name)"
proof -
  let ?r = "indexFusionFile h ws u sourceOverride live"
  have rm: "prototypeIndex (if map_has (filePrototypeMap ws) u
             then ws\<lparr>prototypeIndex := proto_removeByUri (prototypeIndex ws) u,
                     filePrototypeMap := AList.delete u (filePrototypeMap ws)\<rparr>
             else ws) = proto_removeByUri (prototypeIndex ws) u"
    using assms(1) proto_removeByUri_untracked[of u "prototypeIndex ws"]
    by (auto simp: tracked_consistent_def map_has_def)
  have a: "fst ?r = False" and b: "propIndex (snd ?r) = propIndex ws"
    and c: "diagnostics (snd ?r) = diagnostics ws"
    using assms(2,3,4) by (simp_all add: indexFusionFile_def Let_def)
  have d: "prototypeIndex (snd ?r) = indexDocument (proto_removeByUri (prototypeIndex ws) u) u src"
    using assms(2,3,4) rm by (simp add: indexFusionFile_def Let_def)
  show ?thesis
    using a b c d by (simp add: proto_get_indexDocument[of "proto_removeByUri (prototypeIndex ws) u"] proto_get_removeByUri)
qed

lemma indexed_good_value:
  "indexed_good =
   \<lparr>fusionFiles = [],
     prototypeIndex =
       \<lparr>prototypes = [(''X'', \<lparr>protoName = ''X'', protoUri = ''file:///a.fusion'', protoRange = ((0, 0), 0, 12)\<rparr>)],
        filePrototypes = [(''file:///a.fusion'', [''X''])]\<rparr>,
     propIndex =
       [(''X'', [\<lparr>prototypeName = ''X'', propPath = [''foo''], start = 19, endOffset = 28, source = Default,
                   uri = ''file:///a.fusion''\<rparr>])],
     filePrototypeMap = [(''file:///a.fusion'', [''X''])],
     filePropMap =
       [(''file:///a.fusion'',
         [\<lparr>prototypeName = ''X'', propPath = [''foo''], start = 19, endOffset = 28, source = Default\<rparr>])],
     diagnostics = [(''file:///a.fusion'', [])]\<rparr>"
  unfolding indexed_good_def by code_simp

theorem live_edit_guard_witness:
  "tracked_consistent indexed_good
   \<and> fst (parsePropDefinitions broken_source) = []
   \<and> fst (indexFusionFile (example_host good_source) indexed_good ''file:///a.fusion'' (Some broken_source) True) = False
   \<and> propIndex (snd (indexFusionFile (example_host good_source) indexed_good ''file:///a.fusion'' (Some broken_source) True)) =
       [(''X'', [\<lparr>prototypeName = ''X'', propPath = [''foo''], start = 19, endOffset = 28, source = Default,
                   uri = ''file:///a.fusion''\<rparr>])]
   \<and> diagnostics (snd (indexFusionFile (example_host good_source) indexed_good ''file:///a.fusion'' (Some broken_source) True)) =
       [(''file:///a.fusion'', [])]
   \<and> map_option protoUri (proto_get (prototypeIndex (snd (indexFusionFile (example_host good_source) indexed_good
        ''file:///a.fusion'' (Some broken_source) True))) ''X'') = Some ''file:///a.fusion''"
proof -
  have c: "tracked_consistent indexed_good"
    unfolding indexed_good_def by (rule indexFusionFile_consistent[OF empty_consistent])
  have z: "fst (parsePropDefinitions broken_source) = []" by code_simp
  have src: "(case Some broken_source of Some s \<Rightarrow> Some s | None \<Rightarrow> openTextDocument (example_host good_source) ''file:///a.fusion'') = Some broken_source"
    by simp
  have decl: "map declName (parsePrototypes broken_source) = [''X'']" by code_simp
  have ins: "map_option protoUri (proto_get (indexDocument empty_PrototypeIndex ''file:///a.fusion'' broken_source) ''X'') = Some ''file:///a.fusion''"
    by code_simp
  have pi: "propIndex indexed_good = [(''X'', [\<lparr>prototypeName = ''X'', propPath = [''foo''], start = 19, endOffset = 28, source = Default,
                   uri = ''file:///a.fusion''\<rparr>])]"
    and di: "diagnostics indexed_good = [(''file:///a.fusion'', [])]"
    by (simp_all add: indexed_good_value)
  note g = live_edit_guard[OF c TrueI src z, of "''X''"]
  have g1: "fst (indexFusionFile (example_host good_source) indexed_good ''file:///a.fusion'' (Some broken_source) True) = False"
    using g by blast
  have g2: "propIndex (snd (indexFusionFile (example_host good_source) indexed_good ''file:///a.fusion'' (Some broken_source) True)) = propIndex indexed_good"
    using g by blast
  have g3: "diagnostics (snd (indexFusionFile (example_host good_source) indexed_good ''file:///a.fusion'' (Some broken_source) True)) = diagnostics indexed_good"
    using g by blast
  have g5: "proto_get (prototypeIndex (snd (indexFusionFile (example_host good_source) indexed_good ''file:///a.fusion'' (Some broken_source) True))) ''X'' =
        (if ''X'' \<in> set (map declName (parsePrototypes broken_source))
         then proto_get (indexDocument empty_PrototypeIndex ''file:///a.fusion'' broken_source) ''X''
         else if ''X'' \<in> set (getPrototypesFromDocument (prototypeIndex indexed_good) ''file:///a.fusion'') then None
         else proto_get (prototypeIndex indexed_good) ''X'')"
    using g by blast
  have g6: "proto_get (prototypeIndex (snd (indexFusionFile (example_host good_source) indexed_good ''file:///a.fusion'' (Some broken_source) True))) ''X'' =
        proto_get (indexDocument empty_PrototypeIndex ''file:///a.fusion'' broken_source) ''X''"
    unfolding g5 decl by simp
  show ?thesis
    unfolding g1 g2 g3 g6 pi di using c z ins by simp
qed

section \<open>The loop of the merge policy\<close>

lemma set_foldl_set_add: "set (foldl set_add acc xs) = set acc \<union> set xs"
  by (induction xs arbitrary: acc) (auto simp: set_add_def)

lemma parsePropDefinitions_step_merge:
  "fst (parsePropDefinitions_step src acc proto) =
     fst acc @ merge_spec (block_styleguide src proto) (block_defaults src proto)"
proof -
  have "filter (\<lambda>p. join_dot (propPath p) \<notin> set (foldl set_add [] (map (\<lambda>q. join_dot (propPath q)) sg))) df =
        filter (\<lambda>d. \<not> list_ex (\<lambda>s. join_dot (propPath s) = join_dot (propPath d)) sg) df"
    for sg df :: "PropDefinition list"
    by (rule filter_cong) (auto simp: set_foldl_set_add list_ex_iff image_iff)
  then show ?thesis
    by (simp add: parsePropDefinitions_step_def merge_spec_def block_styleguide_def block_defaults_def
          block_body_def Let_def)
qed

lemma parsePropDefinitions_fold:
  "fst (foldl (parsePropDefinitions_step src) acc blocks) =
     fst acc @ concat (map (\<lambda>proto. merge_spec (block_styleguide src proto) (block_defaults src proto)) blocks)"
  by (induction blocks arbitrary: acc) (simp_all add: parsePropDefinitions_step_merge)


section \<open>The data-model invariant of the Prop Index\<close>

lemma walk_paths_nonempty:
  "list_all (\<lambda>p. propPath p \<noteq> []) (walk name bodyOffset lineOffsets node path)"
proof (induction name bodyOffset lineOffsets node path rule: walk.induct)
  case (1 name bodyOffset lineOffsets l c ch path)
  then show ?case by (auto simp: list_all_iff Let_def)
qed

lemma split_on_nonempty: "split_on sep s \<noteq> []"
  by (induction s) (auto simp: Let_def)

lemma default_step_paths:
  "list_all (\<lambda>p. propPath p \<noteq> []) (fst acc) \<Longrightarrow>
   list_all (\<lambda>p. propPath p \<noteq> []) (fst (default_step name bodyOffset acc line))"
  by (auto simp: default_step_def Let_def split_on_nonempty split: option.splits)

lemma default_fold_paths:
  "list_all (\<lambda>p. propPath p \<noteq> []) (fst acc) \<Longrightarrow>
   list_all (\<lambda>p. propPath p \<noteq> []) (fst (foldl (default_step name bodyOffset) acc ls))"
  by (induction ls arbitrary: acc) (simp_all add: default_step_paths)

lemma merge_spec_paths:
  "list_all (\<lambda>p. propPath p \<noteq> []) (merge_spec (block_styleguide src proto) (block_defaults src proto))"
  using walk_paths_nonempty[of "blockName proto"] default_fold_paths[of "([], 0, 0)" "blockName proto"]
  by (auto simp: merge_spec_def block_styleguide_def flattenStyleguideTree_def Let_def
        block_defaults_def parseDefaultProps_def list_all_iff)

text \<open>Every definition the prop pipeline produces has a path of at least one segment.\<close>

lemma parsePropDefinitions_paths_nonempty:
  "list_all (\<lambda>p. propPath p \<noteq> []) (fst (parsePropDefinitions src))"
  using merge_spec_paths[of src]
  by (auto simp: parsePropDefinitions_def parsePropDefinitions_fold list_all_iff)

lemma set_update_subset: "set (AList.update k v al) \<subseteq> insert (k, v) (set al)"
  by (induction al) auto

lemma set_delete_subset: "set (AList.delete k al) \<subseteq> set al"
  by (auto simp: AList.delete_eq)

lemma paths_nonempty_update:
  "paths_nonempty m \<Longrightarrow> list_all (\<lambda>e. propPath e \<noteq> []) ps \<Longrightarrow> paths_nonempty (AList.update k ps m)"
  using set_update_subset[of k ps m] unfolding paths_nonempty_def list_all_iff by fastforce

lemma paths_nonempty_delete: "paths_nonempty m \<Longrightarrow> paths_nonempty (AList.delete k m)"
  using set_delete_subset[of k m] unfolding paths_nonempty_def list_all_iff by blast

lemma paths_nonempty_indexPrototype:
  assumes "paths_nonempty m" and "list_all (\<lambda>p. propPath p \<noteq> []) defs"
  shows "paths_nonempty (indexPrototype m name defs u)"
proof -
  have old: "list_all (\<lambda>e. propPath e \<noteq> []) (case map_of m name of Some ps \<Rightarrow> ps | None \<Rightarrow> [])"
    using paths_nonempty_stored[OF assms(1), of name] by (simp add: stored_def list_all_iff)
  have new: "list_all (\<lambda>e. propPath e \<noteq> [])
      (map (\<lambda>d. \<lparr>prototypeName = prototypeName d, propPath = propPath d, start = start d,
                   endOffset = endOffset d, source = source d, uri = u\<rparr>)
         (filter (\<lambda>d. prototypeName d = name) defs))"
    using assms(2) by (auto simp: list_all_iff)
  show ?thesis
    unfolding indexPrototype_def Let_def
    by (rule paths_nonempty_update[OF assms(1)]) (use old new in simp)
qed

lemma paths_nonempty_removeByUri_fold:
  "paths_nonempty m \<Longrightarrow> list_all (\<lambda>entry. list_all (\<lambda>e. propPath e \<noteq> []) (snd entry)) entries \<Longrightarrow>
   paths_nonempty (foldl (removeByUri_step u) m entries)"
proof (induction entries arbitrary: m)
  case Nil
  then show ?case by simp
next
  case (Cons entry entries)
  have "list_all (\<lambda>e. propPath e \<noteq> []) (filter (\<lambda>p. uri p \<noteq> u) (snd entry))"
    using Cons.prems(2) by (auto simp: list_all_iff)
  then have "paths_nonempty (removeByUri_step u m entry)"
    using Cons.prems(1) by (auto simp: removeByUri_step_def Let_def paths_nonempty_update paths_nonempty_delete)
  then show ?case using Cons by simp
qed

lemma paths_nonempty_removeByUri: "paths_nonempty m \<Longrightarrow> paths_nonempty (prop_removeByUri m u)"
  unfolding prop_removeByUri_def
  by (rule paths_nonempty_removeByUri_fold) (simp_all add: paths_nonempty_def)

lemma group_byPrototype_members:
  "list_all (\<lambda>entry. set (snd entry) \<subseteq> set defs \<union> S) acc \<Longrightarrow>
   list_all (\<lambda>entry. set (snd entry) \<subseteq> set defs \<union> S)
     (foldl (\<lambda>byPrototype d.
              AList.update (prototypeName d)
                ((case map_of byPrototype (prototypeName d) of Some list \<Rightarrow> list | None \<Rightarrow> []) @ [d])
                byPrototype) acc defs)"
proof (induction defs arbitrary: acc S)
  case Nil
  then show ?case by simp
next
  case (Cons d defs)
  let ?old = "case map_of acc (prototypeName d) of Some list \<Rightarrow> list | None \<Rightarrow> []"
  let ?acc = "AList.update (prototypeName d) (?old @ [d]) acc"
  have old: "set ?old \<subseteq> set (d # defs) \<union> S"
  proof (cases "map_of acc (prototypeName d)")
    case None
    then show ?thesis by simp
  next
    case (Some list)
    then have "(prototypeName d, list) \<in> set acc" by (rule map_of_SomeD)
    then have "set list \<subseteq> set (d # defs) \<union> S" using Cons.prems unfolding list_all_iff by fastforce
    then show ?thesis using Some by simp
  qed
  have "list_all (\<lambda>entry. set (snd entry) \<subseteq> set defs \<union> (insert d S)) ?acc"
    unfolding list_all_iff
  proof
    fix entry assume "entry \<in> set ?acc"
    then have "entry = (prototypeName d, ?old @ [d]) \<or> entry \<in> set acc"
      using set_update_subset[of "prototypeName d" "?old @ [d]" acc] by auto
    then show "set (snd entry) \<subseteq> set defs \<union> insert d S"
      using old Cons.prems by (auto simp: list_all_iff)
  qed
  from Cons.IH[OF this] show ?case by simp
qed

lemma group_byPrototype_subset:
  "(name, ds) \<in> set (group_byPrototype defs) \<Longrightarrow> set ds \<subseteq> set defs"
  using group_byPrototype_members[where acc = "[]" and defs = defs and S = "{}"]
  unfolding group_byPrototype_def list_all_iff by fastforce

lemma paths_nonempty_index_groups:
  "paths_nonempty (fst acc) \<Longrightarrow> list_all (\<lambda>entry. list_all (\<lambda>p. propPath p \<noteq> []) (snd entry)) groups \<Longrightarrow>
   paths_nonempty (fst (foldl (index_groups u) acc groups))"
proof (induction groups arbitrary: acc)
  case Nil
  then show ?case by simp
next
  case (Cons g groups)
  have "paths_nonempty (fst (index_groups u acc g))"
    using Cons.prems by (simp add: index_groups_def paths_nonempty_indexPrototype)
  then show ?case using Cons by simp
qed

text \<open>
  The Prop Index of a workspace only ever holds paths of at least one segment: the empty
  workspace does, and every call of \<open>indexFusionFile\<close> keeps it so.
\<close>

lemma indexFusionFile_paths_nonempty:
  assumes "paths_nonempty (propIndex ws)"
  shows "paths_nonempty (propIndex (snd (indexFusionFile h ws u sourceOverride live)))"
proof -
  have groups: "list_all (\<lambda>entry. list_all (\<lambda>p. propPath p \<noteq> []) (snd entry))
                  (group_byPrototype (fst (parsePropDefinitions src)))" for src
    using parsePropDefinitions_paths_nonempty[of src] group_byPrototype_subset[of _ _ "fst (parsePropDefinitions src)"]
    unfolding list_all_iff by fastforce
  have fin: "paths_nonempty (fst (foldl (index_groups u) (m, []) (group_byPrototype (fst (parsePropDefinitions src)))))"
    if "paths_nonempty m" for m src
    using paths_nonempty_index_groups[of "(m, [])" "group_byPrototype (fst (parsePropDefinitions src))" u] that groups
    by simp
  show ?thesis
    using assms fin paths_nonempty_removeByUri[OF assms, of u]
    by (auto simp: indexFusionFile_def Let_def split: option.splits)
qed

lemma empty_paths_nonempty: "paths_nonempty (propIndex empty_WorkspaceIndex)"
  by (simp add: paths_nonempty_def empty_WorkspaceIndex_def)

section \<open>Well-formed styleguide trees and default ranges\<close>

lemma keys_distinct_add_child:
  "keys_distinct t \<Longrightarrow> keys_distinct node \<Longrightarrow> keys_distinct (add_child path key node t)"
proof (induction path key node t rule: add_child.induct)
  case (1 key node l c ch)
  have "set (AList.update key node ch) \<subseteq> insert (key, node) (set ch)" by (rule set_update_subset)
  then show ?case using 1 by (auto simp: distinct_update list_all_iff)
next
  case (2 k ks key node l c ch)
  let ?f = "\<lambda>entry. if fst entry = k then (fst entry, add_child ks key node (snd entry)) else entry"
  have keys: "map fst (map ?f ch) = map fst ch"
    by (induction ch) auto
  have d: "distinct (map fst ch)" and all: "\<forall>entry\<in>set ch. keys_distinct (snd entry)"
    using "2.prems"(1) by (simp_all add: list_all_iff)
  have each: "keys_distinct (snd (?f entry))" if "entry \<in> set ch" for entry
    using "2.IH"[of entry] that all "2.prems"(2) by simp
  have A: "distinct (map fst (map ?f ch))" unfolding keys by (rule d)
  have B: "list_all (\<lambda>entry. keys_distinct (snd entry)) (map ?f ch)"
    unfolding list_all_iff
  proof
    fix e assume "e \<in> set (map ?f ch)"
    then have "e \<in> ?f ` set ch" by (simp only: set_map)
    then obtain e0 where e0: "e = ?f e0" "e0 \<in> set ch" by (rule imageE)
    show "keys_distinct (snd e)" unfolding e0(1) by (rule each[OF e0(2)])
  qed
  show ?case unfolding add_child.simps keys_distinct.simps using A B by (rule conjI)
qed

lemma open_block_keys:
  "keys_distinct (root_props st) \<Longrightarrow> keys_distinct (root_props (open_block st cur line lineNumber indent key))"
  by (simp add: open_block_def Let_def keys_distinct_add_child)

lemma add_leaf_keys:
  "keys_distinct (root_props st) \<Longrightarrow> keys_distinct (root_props (add_leaf st cur line lineNumber key))"
  by (simp add: add_leaf_def Let_def keys_distinct_add_child)

lemma parse_line_keys:
  "keys_distinct (root_props st) \<Longrightarrow> keys_distinct (root_props (parse_line st entry))"
proof -
  assume k: "keys_distinct (root_props st)"
  have sp: "keys_distinct (set_position (root_props st) a b)" for a b
    using k by (cases "root_props st") (simp add: set_position_def)
  show ?thesis
    using k sp
    by (auto simp: parse_line_def Let_def close_block_def open_block_keys add_leaf_keys
          split: option.splits prod.splits)
qed

lemma parse_fold_keys:
  "keys_distinct (root_props st) \<Longrightarrow> keys_distinct (root_props (foldl parse_line st entries))"
  by (induction entries arbitrary: st) (simp_all add: parse_line_keys)

text \<open>In every parsed styleguide tree the sibling keys are unique.\<close>

lemma parseStyleguidePropsTree_keys_distinct:
  "keys_distinct (fst (parseStyleguidePropsTree body))"
  by (simp add: parseStyleguidePropsTree_def Let_def parse_fold_keys initial_parser_state_def)

text \<open>
  A key line met while the current node already has a child of that key changes nothing but
  the warnings: one warning is added, at the line and column of this later occurrence.
\<close>

lemma add_leaf_duplicate:
  assumes "key \<in> set (map fst (children_at (root_props st) cur))"
  shows "add_leaf st cur line lineNumber key =
           st\<lparr>root_warnings := root_warnings st @
                [\<lparr>warnMessage = duplicate_message key, warnLine = lineNumber,
                   warnColumn = (case indexOf line key of Some keyStart \<Rightarrow> keyStart + 1 | None \<Rightarrow> 1)\<rparr>]\<rparr>"
  using assms by (simp add: add_leaf_def has_property_def Let_def)

lemma open_block_duplicate:
  assumes "key \<in> set (map fst (children_at (root_props st) cur))"
  shows "open_block st cur line lineNumber indent key =
           st\<lparr>root_warnings := root_warnings st @
                [\<lparr>warnMessage = duplicate_message key, warnLine = lineNumber,
                   warnColumn = (case indexOf line key of Some keyStart \<Rightarrow> keyStart + 1 | None \<Rightarrow> length indent + 1)\<rparr>]\<rparr>"
  using assms by (simp add: open_block_def has_property_def Let_def)

lemma lines_within_mono: "lines_within n t \<Longrightarrow> n \<le> m \<Longrightarrow> lines_within m t"
proof (induction n t rule: lines_within.induct)
  case (1 n l c ch)
  then show ?case unfolding lines_within.simps list_all_iff by fastforce
qed

lemma lines_within_add_child:
  "lines_within n t \<Longrightarrow> 0 < l' \<Longrightarrow> l' \<le> n \<Longrightarrow>
   lines_within n (add_child path key (StyleguideNode l' c' []) t)"
proof (induction path key "StyleguideNode l' c' []" t rule: add_child.induct)
  case (1 key l c ch)
  have "set (AList.update key (StyleguideNode l' c' []) ch) \<subseteq> insert (key, StyleguideNode l' c' []) (set ch)"
    by (rule set_update_subset)
  then show ?case using 1 unfolding add_child.simps lines_within.simps list_all_iff by auto
next
  case (2 k ks key l c ch)
  let ?f = "\<lambda>entry. if fst entry = k then (fst entry, add_child ks key (StyleguideNode l' c' []) (snd entry)) else entry"
  have all: "\<forall>entry\<in>set ch. 0 < nodeLine (snd entry) \<and> nodeLine (snd entry) \<le> n \<and> lines_within n (snd entry)"
    using "2.prems"(1) by (simp add: list_all_iff)
  have line: "nodeLine (add_child ks key (StyleguideNode l' c' []) m) = nodeLine m" for m
    by (cases m; cases ks) simp_all
  have each: "0 < nodeLine (snd (?f entry)) \<and> nodeLine (snd (?f entry)) \<le> n \<and> lines_within n (snd (?f entry))"
    if "entry \<in> set ch" for entry
    using "2.hyps"[of entry] that all "2.prems"(2,3) line by simp
  have "list_all (\<lambda>entry. 0 < nodeLine (snd entry) \<and> nodeLine (snd entry) \<le> n \<and> lines_within n (snd entry)) (map ?f ch)"
    unfolding list_all_iff
  proof
    fix e assume "e \<in> set (map ?f ch)"
    then have "e \<in> ?f ` set ch" by (simp only: set_map)
    then obtain e0 where e0: "e = ?f e0" "e0 \<in> set ch" by (rule imageE)
    show "0 < nodeLine (snd e) \<and> nodeLine (snd e) \<le> n \<and> lines_within n (snd e)"
      unfolding e0(1) by (rule each[OF e0(2)])
  qed
  then show ?case unfolding add_child.simps lines_within.simps .
qed

lemma parse_line_lines_within:
  assumes "lines_within i (root_props st)"
  shows "lines_within (Suc i) (root_props (parse_line st (line, i)))"
proof -
  have w: "lines_within (Suc i) (root_props st)" using assms by (rule lines_within_mono) simp
  have sp: "lines_within (Suc i) (set_position (root_props st) a b)" for a b
    using w by (cases "root_props st") (simp add: set_position_def)
  have ac: "lines_within (Suc i) (add_child cur key (StyleguideNode (Suc i) col []) (root_props st))" for cur key col
    using w by (rule lines_within_add_child) simp_all
  show ?thesis
    using w sp ac
    by (auto simp: parse_line_def Let_def close_block_def open_block_def add_leaf_def
          split: option.splits prod.splits)
qed

lemma parse_fold_lines_within:
  "lines_within k (root_props st) \<Longrightarrow>
   lines_within (k + length ls) (root_props (foldl parse_line st (zip ls [k..<k + length ls])))"
proof (induction ls arbitrary: k st)
  case Nil
  then show ?case by simp
next
  case (Cons l ls)
  have "k < k + length (l # ls)" by simp
  then have "[k..<k + length (l # ls)] = k # [Suc k..<k + length (l # ls)]"
    by (rule upt_conv_Cons)
  then have idx: "[k..<k + length (l # ls)] = k # [Suc k..<Suc k + length ls]"
    by simp
  have "lines_within (Suc k) (root_props (parse_line st (l, k)))"
    using Cons.prems by (rule parse_line_lines_within)
  from Cons.IH[OF this] show ?case unfolding idx by simp
qed

lemma length_split_crlf: "length (split_crlf s) = length (split_on CHR 0x0A s)"
proof (induction s rule: split_crlf.induct)
  case 1
  then show ?case by simp
next
  case (2 c)
  then show ?case by (simp add: Let_def)
next
  case (3 c d cs)
  then show ?case by (auto simp: Let_def)
qed

lemma length_lineOffsets_from: "length (lineOffsets_from acc ls) = length ls"
  by (induction ls arbitrary: acc) simp_all

text \<open>
  Every node below the root of a parsed tree carries a line number for which the offset
  table built from the same body has an entry.
\<close>

lemma parseStyleguidePropsTree_lines_within:
  "lines_within (length (lineOffsets_from 0 (split_crlf body))) (fst (parseStyleguidePropsTree body))"
proof -
  have "lines_within 0 (root_props initial_parser_state)"
    by (simp add: initial_parser_state_def)
  from parse_fold_lines_within[OF this, of "split_on CHR 0x0A body"]
  show ?thesis
    by (simp add: parseStyleguidePropsTree_def Let_def length_lineOffsets_from length_split_crlf)
qed

lemma join_dot_Cons: "join_dot ((c # x) # xs) = c # join_dot (x # xs)"
  by (cases xs) simp_all

lemma join_dot_split_on: "join_dot (split_on CHR ''.'' s) = s"
proof (induction s)
  case Nil
  then show ?case by simp
next
  case (Cons c s)
  obtain y ys where r: "split_on CHR ''.'' s = y # ys"
    using split_on_nonempty[of "CHR ''.''" s] by (cases "split_on CHR ''.'' s") auto
  show ?case using Cons r by (simp add: Let_def join_dot_Cons)
qed

lemma defaultRegex_match_length:
  "defaultRegex_match line = Some (key, n) \<Longrightarrow> length key < n"
  by (auto simp: defaultRegex_match_def Let_def split: if_splits)

lemma default_step_span:
  "list_all (\<lambda>p. start p + length (join_dot (propPath p)) < endOffset p) (fst acc) \<Longrightarrow>
   list_all (\<lambda>p. start p + length (join_dot (propPath p)) < endOffset p)
     (fst (default_step name bodyOffset acc line))"
  by (auto simp: default_step_def Let_def join_dot_split_on split: option.splits
        dest: defaultRegex_match_length)

lemma default_fold_span:
  "list_all (\<lambda>p. start p + length (join_dot (propPath p)) < endOffset p) (fst acc) \<Longrightarrow>
   list_all (\<lambda>p. start p + length (join_dot (propPath p)) < endOffset p)
     (fst (foldl (default_step name bodyOffset) acc ls))"
  by (induction ls arbitrary: acc) (simp_all add: default_step_span)

text \<open>
  The range of every default definition ends past its key: the end is the start plus the
  length of the whole match, which is longer than the key by at least the \<open>=\<close>.
\<close>

lemma parseDefaultProps_end_past_key:
  "list_all (\<lambda>p. start p + length (join_dot (propPath p)) < endOffset p) (parseDefaultProps body name bodyOffset)"
  using default_fold_span[of "([], 0, 0)" name bodyOffset "split_crlf body"]
  by (simp add: parseDefaultProps_def)

section \<open>Properties of the prop pipeline\<close>

lemma walk_source:
  "list_all (\<lambda>p. source p = Styleguide \<and> prototypeName p = name) (walk name bodyOffset lineOffsets node path)"
proof (induction name bodyOffset lineOffsets node path rule: walk.induct)
  case (1 name bodyOffset lineOffsets l c ch path)
  then show ?case by (auto simp: list_all_iff Let_def)
qed

lemma default_step_source:
  "list_all (\<lambda>p. source p = Default \<and> prototypeName p = name) (fst acc) \<Longrightarrow>
   list_all (\<lambda>p. source p = Default \<and> prototypeName p = name) (fst (default_step name bodyOffset acc line))"
  by (auto simp: default_step_def Let_def split: option.splits)

lemma default_fold_source:
  "list_all (\<lambda>p. source p = Default \<and> prototypeName p = name) (fst acc) \<Longrightarrow>
   list_all (\<lambda>p. source p = Default \<and> prototypeName p = name) (fst (foldl (default_step name bodyOffset) acc ls))"
  by (induction ls arbitrary: acc) (simp_all add: default_step_source)

text \<open>
  Claim C5. The claim says that, for every prototype, a default-source definition is dropped
  exactly when its full dotted path equals that of a styleguide definition of the same
  prototype, and that the result lists all styleguide entries followed by all surviving
  default entries. The set of seen paths is built anew for every prototype block. In a source
  where two blocks declare the prototype \<open>X\<close>, the default \<open>foo\<close> of the second block stays
  beside the styleguide \<open>foo\<close> of the first, and the default \<open>bar\<close> of the first block comes
  before the styleguide \<open>baz\<close> of the second.
\<close>

theorem two_blocks_counterexample:
  "map prototypeName (fst (parsePropDefinitions two_blocks_source)) = [''X'', ''X'', ''X'', ''X'']
   \<and> map propPath (fst (parsePropDefinitions two_blocks_source)) = [[''foo''], [''bar''], [''baz''], [''foo'']]
   \<and> map source (fst (parsePropDefinitions two_blocks_source)) = [Styleguide, Default, Styleguide, Default]"
  by code_simp

text \<open>
  Claim C5, amended. For every prototype block of a source, a default-source definition of the
  block is dropped exactly when its full dotted path equals the full dotted path of a
  styleguide definition of that same block; a suffix relation alone does not drop it. The
  result lists, block by block in source order, the styleguide entries of the block followed
  by its surviving default entries; blocks that declare the same prototype name are merged
  separately.
\<close>

theorem merge_policy:
  "fst (parsePropDefinitions src) =
     concat (map (\<lambda>proto. merge_spec (block_styleguide src proto) (block_defaults src proto))
               (parsePrototypeBlocks src))
   \<and> list_all (\<lambda>p. source p = Styleguide \<and> prototypeName p = blockName proto) (block_styleguide src proto)
   \<and> list_all (\<lambda>p. source p = Default \<and> prototypeName p = blockName proto) (block_defaults src proto)"
  using walk_source[of "blockName proto"] default_fold_source[of "blockName proto" "([], 0, 0)"]
  by (simp add: parsePropDefinitions_def parsePropDefinitions_fold block_styleguide_def
        flattenStyleguideTree_def Let_def block_defaults_def parseDefaultProps_def)

theorem merge_policy_witness:
  "map (\<lambda>p. (propPath p, source p)) (fst (parsePropDefinitions merge_source)) =
     [([''foo''], Styleguide), ([''foo'', ''baz''], Styleguide), ([''bar''], Styleguide), ([''baz''], Default)]
   \<and> map propPath (block_styleguide merge_source \<lparr>blockName = ''X'', bodyStart = 14, bodyEnd = 171\<rparr>) =
       [[''foo''], [''foo'', ''baz''], [''bar'']]
   \<and> map propPath (block_defaults merge_source \<lparr>blockName = ''X'', bodyStart = 14, bodyEnd = 171\<rparr>) =
       [[''baz''], [''bar'']]"
proof -
  have b: "parsePrototypeBlocks merge_source = [\<lparr>blockName = ''X'', bodyStart = 14, bodyEnd = 171\<rparr>]"
    by code_simp
  have sg: "map (\<lambda>p. (propPath p, source p)) (block_styleguide merge_source \<lparr>blockName = ''X'', bodyStart = 14, bodyEnd = 171\<rparr>) =
       [([''foo''], Styleguide), ([''foo'', ''baz''], Styleguide), ([''bar''], Styleguide)]"
    by code_simp
  have df: "map (\<lambda>p. (propPath p, source p)) (block_defaults merge_source \<lparr>blockName = ''X'', bodyStart = 14, bodyEnd = 171\<rparr>) =
       [([''baz''], Default), ([''bar''], Default)]"
    by code_simp
  have m: "map (\<lambda>p. (propPath p, source p))
             (merge_spec (block_styleguide merge_source \<lparr>blockName = ''X'', bodyStart = 14, bodyEnd = 171\<rparr>)
                (block_defaults merge_source \<lparr>blockName = ''X'', bodyStart = 14, bodyEnd = 171\<rparr>)) =
           [([''foo''], Styleguide), ([''foo'', ''baz''], Styleguide), ([''bar''], Styleguide), ([''baz''], Default)]"
    by code_simp
  have sg': "map propPath (block_styleguide merge_source \<lparr>blockName = ''X'', bodyStart = 14, bodyEnd = 171\<rparr>) =
       [[''foo''], [''foo'', ''baz''], [''bar'']]"
    using arg_cong[OF sg, of "map fst"] by (simp add: comp_def)
  have df': "map propPath (block_defaults merge_source \<lparr>blockName = ''X'', bodyStart = 14, bodyEnd = 171\<rparr>) =
       [[''baz''], [''bar'']]"
    using arg_cong[OF df, of "map fst"] by (simp add: comp_def)
  have "fst (parsePropDefinitions merge_source) =
          merge_spec (block_styleguide merge_source \<lparr>blockName = ''X'', bodyStart = 14, bodyEnd = 171\<rparr>)
                (block_defaults merge_source \<lparr>blockName = ''X'', bodyStart = 14, bodyEnd = 171\<rparr>)"
    using merge_policy[of merge_source] unfolding b by simp
  then show ?thesis using m sg' df' by simp
qed

text \<open>
  Claim C6. The claim says that the source
  \<open>prototype(Foo:Bar) { @styleguide { props { a { b = 1 } a { b = 2 } } } }\<close> yields the path
  \<open>['a','b']\<close> twice and one duplicate warning. The styleguide parser works line by line and
  consumes the line that contains \<open>@styleguide\<close> whole, so the source written on one line
  yields nothing. Laid out one construct per line it yields the paths \<open>['a']\<close>,
  \<open>['a','b']\<close> and \<open>['b']\<close>: the second \<open>a {\<close> only pushes the warning, no node is created
  or entered for it, and \<open>b = 2\<close> is stored under the node that was current, the \<open>props\<close>
  root.
\<close>

theorem c6_paths_counterexample:
  "map propPath (fst (parsePropDefinitions c6_source)) = []
   \<and> snd (parsePropDefinitions c6_source) = []
   \<and> map propPath (fst (parsePropDefinitions c6_source_lines)) = [[''a''], [''a'', ''b''], [''b'']]"
  by code_simp

text \<open>
  Claim C6, amended. Laid out one construct per line, the source yields for \<open>Foo:Bar\<close> the
  path \<open>['a','b']\<close> exactly once, every entry has the source styleguide, and there is exactly
  one warning \<open>Duplicate prop "a" defined at the same level\<close>, positioned at the second
  \<open>a {\<close> (line 7, column 13); written on one line the source yields no definition and no
  warning.
\<close>

theorem c6_pipeline_result:
  "filter (\<lambda>p. propPath p = [''a'', ''b'']) (fst (parsePropDefinitions c6_source_lines)) =
     [\<lparr>prototypeName = ''Foo:Bar'', propPath = [''a'', ''b''], start = 87, endOffset = 88, source = Styleguide\<rparr>]
   \<and> list_all (\<lambda>p. source p = Styleguide \<and> prototypeName p = ''Foo:Bar'') (fst (parsePropDefinitions c6_source_lines))
   \<and> snd (parsePropDefinitions c6_source_lines) =
       [\<lparr>warnMessage = ''Duplicate prop '' @ [CHR 0x22] @ ''a'' @ [CHR 0x22] @ '' defined at the same level'',
          warnLine = 7, warnColumn = 13\<rparr>]
   \<and> split_on CHR 0x0A c6_source_lines ! 6 = ''            a {''
   \<and> parsePropDefinitions c6_source = ([], [])"
  by code_simp

text \<open>
  Claim C7. The claim says that the offsets of a default definition span exactly the matched
  key text. The start is the offset of the key, but the end is the start plus the length of
  the whole match, which also counts the indentation, the white space after the key and the
  \<open>=\<close>. For the claim's own example the range is \<open>[15, 25)\<close> and reads \<open>foo.bar = \<close>, while
  the key \<open>foo.bar\<close> ends at 22. The path and the source of the entry are as the claim says.
\<close>

theorem default_end_past_key:
  "parsePropDefinitions c7_source =
     ([\<lparr>prototypeName = ''X'', propPath = [''foo'', ''bar''], start = 15, endOffset = 25, source = Default\<rparr>], [])
   \<and> slice c7_source 15 25 = ''foo.bar = ''
   \<and> slice c7_source 15 22 = ''foo.bar''"
  by code_simp

text \<open>
  Claim C4. The claim says that every extra occurrence of a key at one nesting level yields
  exactly one warning (\<open>N\<close> occurrences, \<open>N - 1\<close> warnings) and that the first occurrence
  survives as a child. Two inputs show the code doing otherwise. A repeated block opener
  pushes its warning and returns without pushing a stack frame, so the closing brace of the
  repeated block pops the enclosing node: of three blocks \<open>a { }\<close> in \<open>props\<close> the second
  yields a warning and its brace closes \<open>props\<close>, after which the third is not looked at, one
  warning instead of two. And the duplicate test reads the key as a property of a plain
  object, which also answers for the names inherited from \<open>Object.prototype\<close>: the single
  occurrence of \<open>toString = 1\<close> yields a duplicate warning and no child.
\<close>

theorem duplicate_warning_miscount:
  "parseStyleguidePropsTree duplicate_blocks_body =
     (StyleguideNode 3 1 [(''a'', StyleguideNode 4 1 [])],
      [\<lparr>warnMessage = ''Duplicate prop '' @ [CHR 0x22] @ ''a'' @ [CHR 0x22] @ '' defined at the same level'',
         warnLine = 6, warnColumn = 1\<rparr>])
   \<and> parseStyleguidePropsTree inherited_key_body =
     (StyleguideNode 3 1 [],
      [\<lparr>warnMessage = ''Duplicate prop '' @ [CHR 0x22] @ ''toString'' @ [CHR 0x22] @ '' defined at the same level'',
         warnLine = 4, warnColumn = 1\<rparr>])"
  by code_simp

end
